theory Spec2Isabelle
  imports Main
begin

section \<open>The credential vault component (frontend/src/pages/CredentialVault.tsx)\<close>

text \<open>
  The component is a React function component. Its \<open>useState\<close> cells, the \<open>useRef\<close>
  cell holding the timer handle and the parts of the outside world its handlers touch
  (the browser's timer table, the console, the storage backend, the sequence of
  collaborator calls) are the fields of one record, and each handler is a function on
  that record. In \<open>step\<close> a handler is run to completion as one step, the values its
  closure has captured being the values of the cells when it starts; handlers that
  interleave at their \<open>await\<close> points are the subject of \<open>async_reachable\<close>.

  The collaborators imported from \<open>utils/cryptoUtils\<close>, \<open>utils/deriveKey\<close>,
  \<open>services/dashServices\<close> and \<open>services/vaultservices\<close> are parameters, gathered in
  the record \<open>env\<close>. A rejected promise or a thrown exception is the value \<open>Inl e\<close>.
\<close>

subsection \<open>Data\<close>

datatype js_error = Error string | TypeError string

datatype CryptoKey = CryptoKey string

text \<open>A field envelope as the component reads it: \<open>{cipherText, iv}\<close>.\<close>

record envelope =
  cipherText :: string
  iv :: string

text \<open>
  An entry as returned by \<open>getEncryptedVault\<close>. The component reads \<open>entry.website\<close>,
  \<open>entry.username\<close>, \<open>entry.password\<close>, \<open>entry.notes\<close> (here \<open>notes'\<close>) and \<open>_id\<close>
  (here \<open>entry_id\<close>);
  a field that is \<open>undefined\<close> or \<open>null\<close> is \<open>None\<close>.
\<close>

record encrypted_entry =
  entry_id :: string
  website :: "envelope option"
  username :: "envelope option"
  password :: "envelope option"
  notes' :: "envelope option"

text \<open>The object built at lines 128-134: the spread entry and the four plaintexts.\<close>

record decrypted_entry =
  entry :: encrypted_entry
  decryptedWebsite :: string
  decryptedUsername :: string
  decryptedPassword :: string
  decryptedNotes :: string

text \<open>The \<open>newEntry\<close> form state (lines 30-35).\<close>

record new_entry =
  new_website :: string
  new_username :: string
  new_password :: string
  new_notes :: string

text \<open>The object passed to \<open>addEntry\<close> and \<open>updateEntry\<close>; \<open>notes\<close> may be \<open>null\<close>.\<close>

record payload =
  payload_website :: envelope
  payload_username :: envelope
  payload_password :: envelope
  payload_notes :: "envelope option"

record verification =
  secret :: string
  hmac :: string

text \<open>The response of \<open>getEncryptionSalt\<close>, each property possibly missing.\<close>

record salt_response =
  encryptionSalt :: "string option"
  keyDerivationMethod :: "string option"
  verification :: "verification option"

text \<open>One collaborator call, as it is observed from outside the component.\<close>

datatype call =
    GetEncryptionSalt
  | Base64ToBuffer string
  | DeriveKey string string string
  | CreateHMAC CryptoKey string
  | GetEncryptedVault
  | DecryptData string string CryptoKey
  | EncryptData string CryptoKey
  | AddEntry payload
  | UpdateEntry string payload
  | DeleteEntry string

datatype console_line = ConsoleError string js_error | ConsoleLog string

text \<open>
  The collaborators. \<open>'srv\<close> is the state of the storage backend, which the three
  requests that change it return updated. \<open>getEncryptedVault\<close> gives the \<open>data\<close> array
  of the response. \<open>encryptData\<close> takes, as its last argument, the number of the nonce it
  draws, so that two encryptions of one plaintext may differ.
\<close>

record 'srv env =
  getEncryptionSalt :: "'srv \<Rightarrow> js_error + salt_response"
  base64ToBuffer :: "string \<Rightarrow> js_error + string"
  deriveKey :: "string \<Rightarrow> string \<Rightarrow> string \<Rightarrow> js_error + (CryptoKey \<times> CryptoKey)"
  createHMAC :: "CryptoKey \<Rightarrow> string \<Rightarrow> js_error + string"
  getEncryptedVault :: "'srv \<Rightarrow> js_error + encrypted_entry list"
  decryptData :: "string \<Rightarrow> string \<Rightarrow> CryptoKey \<Rightarrow> js_error + string"
  encryptData :: "string \<Rightarrow> CryptoKey \<Rightarrow> nat \<Rightarrow> js_error + envelope"
  addEntry :: "payload \<Rightarrow> 'srv \<Rightarrow> js_error + 'srv"
  updateEntry :: "string \<Rightarrow> payload \<Rightarrow> 'srv \<Rightarrow> js_error + 'srv"
  deleteEntry :: "string \<Rightarrow> 'srv \<Rightarrow> js_error + 'srv"

text \<open>
  The component and its surroundings. The first eleven fields are the \<open>useState\<close> cells
  of lines 19-37, \<open>timeoutRef\<close> is the \<open>useRef\<close> cell of line 40, \<open>listening\<close> says
  whether the effect of lines 63-79 has its two listeners attached. \<open>now\<close> (in
  milliseconds), \<open>pending\<close> (handle and due time of every timer set and neither fired
  nor cleared) and \<open>nextHandle\<close> are the browser's timer table.
\<close>

record 'srv world =
  masterPassword :: string
  vaultUnlocked :: bool
  credentials :: "decrypted_entry list"
  editingEntry :: "decrypted_entry option"
  error :: string
  isUnlocking :: bool
  isAdding :: bool
  isUpdating :: bool
  showAddForm :: bool
  newEntry :: new_entry
  aesKey :: "CryptoKey option"
  timeoutRef :: "nat option"
  listening :: bool
  now :: nat
  pending :: "(nat \<times> nat) list"
  nextHandle :: nat
  console :: "console_line list"
  calls :: "call list"
  nonces :: nat
  server :: 'srv

text \<open>The state of the first render: every \<open>useState\<close> initial value, no timer.\<close>

definition initial :: "'srv \<Rightarrow> 'srv world" where
  "initial srv =
     \<lparr>masterPassword = '''', vaultUnlocked = False, credentials = [], editingEntry = None,
      error = '''', isUnlocking = False, isAdding = False, isUpdating = False,
      showAddForm = False,
      newEntry = \<lparr>new_website = '''', new_username = '''', new_password = '''', new_notes = ''''\<rparr>,
      aesKey = None, timeoutRef = None, listening = False, now = 0, pending = [],
      nextHandle = 1, console = [], calls = [], nonces = 0, server = srv\<rparr>"

subsection \<open>Asynchronous code as a state and exception monad\<close>

type_synonym ('a, 'srv) io = "'srv world \<Rightarrow> (js_error + 'a) \<times> 'srv world"

definition return_io :: "'a \<Rightarrow> ('a, 'srv) io" where
  "return_io x = (\<lambda>w. (Inr x, w))"

definition throw :: "js_error \<Rightarrow> ('a, 'srv) io" where
  "throw e = (\<lambda>w. (Inl e, w))"

text \<open>\<open>const x = await m; f x\<close>: a rejection of \<open>m\<close> skips the rest.\<close>

definition await :: "('a, 'srv) io \<Rightarrow> ('a \<Rightarrow> ('b, 'srv) io) \<Rightarrow> ('b, 'srv) io" where
  "await m f = (\<lambda>w. case m w of (Inl e, w') \<Rightarrow> (Inl e, w') | (Inr x, w') \<Rightarrow> f x w')"

text \<open>A collaborator call that reads nothing from the world: it is recorded, and its result returned.\<close>

definition invoke :: "call \<Rightarrow> js_error + 'a \<Rightarrow> ('a, 'srv) io" where
  "invoke c r = (\<lambda>w. (r, w\<lparr>calls := calls w @ [c]\<rparr>))"

text \<open>
  \<open>Promise.all\<close> over promises that have all been started: every one of them runs,
  whatever happens to the others, and the result is the list of their values, or a
  rejection when one of them rejects. In the browser the calls of different members
  interleave and the rejection reported is the first in time; here the calls are
  recorded member after member and the rejection reported is the first in list order.
  Which calls are made, and whether the result is a rejection, is the same.
\<close>

fun promise_all :: "('a, 'srv) io list \<Rightarrow> ('a list, 'srv) io" where
  "promise_all [] w = (Inr [], w)"
| "promise_all (m # ms) w =
     (case m w of (r, w1) \<Rightarrow>
        (case promise_all ms w1 of (rs, w2) \<Rightarrow>
           (case r of
              Inl e \<Rightarrow> (Inl e, w2)
            | Inr x \<Rightarrow> (case rs of Inl e \<Rightarrow> (Inl e, w2) | Inr xs \<Rightarrow> (Inr (x # xs), w2)))))"

subsection \<open>The browser's timers\<close>

text \<open>
  \<open>window.setTimeout\<close> returns a fresh handle and enters the timer with its due time;
  \<open>clearTimeout\<close> removes the timer with the given handle, if any.
\<close>

definition window_setTimeout :: "nat \<Rightarrow> 'srv world \<Rightarrow> nat \<times> 'srv world" where
  "window_setTimeout delay w =
     (nextHandle w,
      w\<lparr>pending := pending w @ [(nextHandle w, now w + delay)],
        nextHandle := Suc (nextHandle w)\<rparr>)"

definition clearTimeout :: "nat \<Rightarrow> 'srv world \<Rightarrow> 'srv world" where
  "clearTimeout h w = w\<lparr>pending := filter (\<lambda>p. fst p \<noteq> h) (pending w)\<rparr>"

text \<open>\<open>if (timeoutRef.current)\<close>: \<open>undefined\<close> and \<open>0\<close> are falsy.\<close>

definition truthy :: "nat option \<Rightarrow> bool" where
  "truthy r = (case r of None \<Rightarrow> False | Some h \<Rightarrow> h \<noteq> 0)"

subsection \<open>lockVault and the inactivity timer (lines 39-79)\<close>

definition AUTO_LOCK_TIME :: nat where
  "AUTO_LOCK_TIME = 1 * 60 * 1000"

definition lockVault :: "'srv world \<Rightarrow> 'srv world" where
  "lockVault w =
     (let w1 = w\<lparr>vaultUnlocked := False, aesKey := None, credentials := [],
                 editingEntry := None, showAddForm := False, masterPassword := ''''\<rparr>
      in if truthy (timeoutRef w1)
         then (clearTimeout (the (timeoutRef w1)) w1)\<lparr>timeoutRef := None\<rparr>
         else w1)"

text \<open>The callback handed to \<open>setTimeout\<close> at lines 57-60.\<close>

definition autoLockCallback :: "'srv world \<Rightarrow> 'srv world" where
  "autoLockCallback w =
     (let w1 = lockVault w
      in w1\<lparr>console := console w1 @ [ConsoleLog ''Vault auto-locked due to inactivity.'']\<rparr>)"

definition resetAutoLockTimer :: "'srv world \<Rightarrow> 'srv world" where
  "resetAutoLockTimer w =
     (let w1 = (if truthy (timeoutRef w) then clearTimeout (the (timeoutRef w)) w else w)
      in case window_setTimeout AUTO_LOCK_TIME w1 of
           (h', w2) \<Rightarrow> w2\<lparr>timeoutRef := Some h'\<rparr>)"

text \<open>
  The effect of lines 63-79, with dependencies \<open>[vaultUnlocked, resetAutoLockTimer]\<close>.
  \<open>resetAutoLockTimer\<close> is the same function in every render, so the effect runs again
  only when \<open>vaultUnlocked\<close> has changed: the clean-up of the previous run first (when the
  previous run got past line 64), then the body. \<open>prev\<close> is the value of
  \<open>vaultUnlocked\<close> at the previous run.
\<close>

definition autoLockEffect :: "bool \<Rightarrow> 'srv world \<Rightarrow> 'srv world" where
  "autoLockEffect prev w =
     (if vaultUnlocked w = prev then w
      else if prev then
        (let w1 = w\<lparr>listening := False\<rparr>
         in if truthy (timeoutRef w1) then clearTimeout (the (timeoutRef w1)) w1 else w1)
      else resetAutoLockTimer (w\<lparr>listening := True\<rparr>))"

text \<open>A handler followed by the render it causes and that render's effect.\<close>

definition commit :: "('srv world \<Rightarrow> 'srv world) \<Rightarrow> 'srv world \<Rightarrow> 'srv world" where
  "commit h w = autoLockEffect (vaultUnlocked w) (h w)"

text \<open>\<open>handleActivity\<close>, called by the \<open>mousemove\<close> and \<open>keydown\<close> listeners while attached.\<close>

definition handleActivity :: "'srv world \<Rightarrow> 'srv world" where
  "handleActivity w = (if listening w then resetAutoLockTimer w else w)"

text \<open>
  A timer that is due fires once: it leaves the table and its callback runs. A timer
  that an earlier callback has cleared does not fire.
\<close>

definition fire :: "nat \<times> nat \<Rightarrow> 'srv world \<Rightarrow> 'srv world" where
  "fire p w =
     (if p \<in> set (pending w)
      then commit autoLockCallback
             (w\<lparr>now := max (now w) (snd p), pending := filter (\<lambda>q. fst q \<noteq> fst p) (pending w)\<rparr>)
      else w)"

text \<open>\<open>d\<close> milliseconds pass: the timers due by then fire in the order of their due times.\<close>

definition elapse :: "nat \<Rightarrow> 'srv world \<Rightarrow> 'srv world" where
  "elapse d w =
     (let t = now w + d;
          due = sort_key snd (filter (\<lambda>p. snd p \<le> t) (pending w))
      in (fold fire due w)\<lparr>now := t\<rparr>)"

subsection \<open>handleUnlock (lines 81-147)\<close>

text \<open>\<open>decryptData(entry.f.cipherText, entry.f.iv, aesKey)\<close>; reading a property of a missing \<open>entry.f\<close> throws.\<close>

definition decryptField :: "'srv env \<Rightarrow> CryptoKey \<Rightarrow> string \<Rightarrow> envelope option \<Rightarrow> (string, 'srv) io" where
  "decryptField env k name f =
     (case f of
        None \<Rightarrow> throw (TypeError (''Cannot read properties of undefined: '' @ name))
      | Some v \<Rightarrow> invoke (DecryptData (cipherText v) (iv v) k)
                         (decryptData env (cipherText v) (iv v) k))"

text \<open>The \<open>async (entry) => ...\<close> of lines 108-135.\<close>

definition decryptEntry :: "'srv env \<Rightarrow> CryptoKey \<Rightarrow> encrypted_entry \<Rightarrow> (decrypted_entry, 'srv) io" where
  "decryptEntry env k e =
     await (decryptField env k ''website'' (website e)) (\<lambda>decWebsite.
     await (decryptField env k ''username'' (username e)) (\<lambda>decUsername.
     await (decryptField env k ''password'' (password e)) (\<lambda>decPassword.
     await (case notes' e of
              Some v \<Rightarrow> decryptField env k ''notes'' (Some v)
            | None \<Rightarrow> return_io '''') (\<lambda>decNotes.
     return_io \<lparr>entry = e, decryptedWebsite = decWebsite, decryptedUsername = decUsername,
                decryptedPassword = decPassword, decryptedNotes = decNotes\<rparr>))))"

text \<open>
  The body of the \<open>try\<close> block up to line 136: the key and the decrypted entries, or the
  exception. \<open>keys\<close> is the pair \<open>{aesKey, hmacKey}\<close> that \<open>deriveKey\<close> resolves to.
\<close>

definition unlock_try :: "'srv env \<Rightarrow> (CryptoKey \<times> decrypted_entry list, 'srv) io" where
  "unlock_try env =
     (\<lambda>w0.
       await (invoke GetEncryptionSalt (getEncryptionSalt env (server w0))) (\<lambda>response.
         case (encryptionSalt response, keyDerivationMethod response, verification response) of
           (Some salt, Some method, Some v) \<Rightarrow>
             if salt = '''' \<or> method = ''''
             then throw (Error ''Missing required encryption data from server.'')
             else
               await (invoke (Base64ToBuffer salt) (base64ToBuffer env salt)) (\<lambda>buf.
               await (invoke (DeriveKey (masterPassword w0) buf method)
                             (deriveKey env (masterPassword w0) buf method)) (\<lambda>keys.
               await (invoke (CreateHMAC (snd keys) (secret v))
                             (createHMAC env (snd keys) (secret v))) (\<lambda>hmacToVerify.
                 if hmacToVerify \<noteq> hmac v
                 then throw (Error ''Master password verification failed.'')
                 else
                   await (invoke GetEncryptedVault (getEncryptedVault env (server w0))) (\<lambda>encrypted.
                   await (promise_all (map (decryptEntry env (fst keys)) encrypted)) (\<lambda>decrypted.
                   return_io (fst keys, decrypted))))))
         | _ \<Rightarrow> throw (Error ''Missing required encryption data from server.'')) w0)"

definition unlock_message :: string where
  "unlock_message = ''Incorrect master password or decryption failed.''"

definition handleUnlock :: "'srv env \<Rightarrow> 'srv world \<Rightarrow> 'srv world" where
  "handleUnlock env w =
     (let w1 = w\<lparr>error := '''', isUnlocking := True\<rparr>;
          w3 = (case unlock_try env w1 of
                  (Inr (k, decrypted), w2) \<Rightarrow>
                    w2\<lparr>aesKey := Some k, credentials := decrypted, vaultUnlocked := True\<rparr>
                | (Inl e, w2) \<Rightarrow>
                    w2\<lparr>console := console w2 @ [ConsoleError '''' e], error := unlock_message\<rparr>)
      in w3\<lparr>isUnlocking := False\<rparr>)"

subsection \<open>The mutation handlers (lines 149-196 and 366-405)\<close>

text \<open>\<open>encryptData(plaintext, aesKey)\<close>: the call draws the next nonce.\<close>

definition encryptField :: "'srv env \<Rightarrow> CryptoKey \<Rightarrow> string \<Rightarrow> (envelope, 'srv) io" where
  "encryptField env k plaintext =
     (\<lambda>w. (encryptData env plaintext k (nonces w),
           w\<lparr>calls := calls w @ [EncryptData plaintext k], nonces := Suc (nonces w)\<rparr>))"

text \<open>A request that changes the backend: on success the backend is in its new state.\<close>

definition mutate :: "call \<Rightarrow> ('srv \<Rightarrow> js_error + 'srv) \<Rightarrow> (unit, 'srv) io" where
  "mutate c request =
     (\<lambda>w. case request (server w) of
             Inl e \<Rightarrow> (Inl e, w\<lparr>calls := calls w @ [c]\<rparr>)
           | Inr srv' \<Rightarrow> (Inr (), w\<lparr>calls := calls w @ [c], server := srv'\<rparr>))"

text \<open>
  The four encryptions shared by both forms: \<open>website\<close>, \<open>username\<close>, \<open>password\<close>, and
  \<open>notes\<close> only when the plaintext is a non-empty string
  (\<open>x ? await encryptData(x, aesKey) : null\<close>).
\<close>

definition encryptFields ::
  "'srv env \<Rightarrow> CryptoKey \<Rightarrow> string \<Rightarrow> string \<Rightarrow> string \<Rightarrow> string \<Rightarrow> (payload, 'srv) io" where
  "encryptFields env k w_plain u_plain p_plain n_plain =
     await (encryptField env k w_plain) (\<lambda>website.
     await (encryptField env k u_plain) (\<lambda>username.
     await (encryptField env k p_plain) (\<lambda>password.
     await (if n_plain \<noteq> ''''
            then await (encryptField env k n_plain) (\<lambda>v. return_io (Some v))
            else return_io None) (\<lambda>notes.
     return_io \<lparr>payload_website = website, payload_username = username,
                payload_password = password, payload_notes = notes\<rparr>))))"

definition emptyEntry :: new_entry where
  "emptyEntry = \<lparr>new_website = '''', new_username = '''', new_password = '''', new_notes = ''''\<rparr>"

text \<open>The \<open>try\<close> block of \<open>handleAddEntry\<close> up to the end of \<open>await addEntry(...)\<close>.\<close>

definition add_try :: "'srv env \<Rightarrow> CryptoKey \<Rightarrow> new_entry \<Rightarrow> (unit, 'srv) io" where
  "add_try env k ne =
     await (encryptFields env k (new_website ne) (new_username ne) (new_password ne) (new_notes ne))
           (\<lambda>p. mutate (AddEntry p) (addEntry env p))"

text \<open>
  \<open>handleAddEntry\<close>. The call \<open>handleUnlock()\<close> of line 173 is not awaited; it and the
  \<open>finally\<close> block write different cells, so the state once both have finished is the
  one computed here.
\<close>

definition handleAddEntry :: "'srv env \<Rightarrow> 'srv world \<Rightarrow> 'srv world" where
  "handleAddEntry env w =
     (case aesKey w of
        None \<Rightarrow> w
      | Some k \<Rightarrow>
          (let w1 = w\<lparr>isAdding := True, error := ''''\<rparr>;
               w3 = (case add_try env k (newEntry w) w1 of
                       (Inr u, w2) \<Rightarrow>
                         handleUnlock env (w2\<lparr>showAddForm := False, newEntry := emptyEntry\<rparr>)
                     | (Inl e, w2) \<Rightarrow>
                         w2\<lparr>console := console w2 @ [ConsoleError ''Add entry failed'' e],
                            error := ''Failed to add entry.''\<rparr>)
           in w3\<lparr>isAdding := False\<rparr>))"

text \<open>
  The \<open>onSubmit\<close> handler of the edit form (lines 366-405). The form exists only while
  \<open>editingEntry\<close> is not \<open>null\<close>.
\<close>

definition update_try :: "'srv env \<Rightarrow> CryptoKey \<Rightarrow> decrypted_entry \<Rightarrow> (unit, 'srv) io" where
  "update_try env k ee =
     await (encryptFields env k (decryptedWebsite ee) (decryptedUsername ee)
              (decryptedPassword ee) (decryptedNotes ee))
           (\<lambda>p. mutate (UpdateEntry (entry_id (entry ee)) p)
                        (updateEntry env (entry_id (entry ee)) p))"

definition handleUpdateEntry :: "'srv env \<Rightarrow> 'srv world \<Rightarrow> 'srv world" where
  "handleUpdateEntry env w =
     (case aesKey w of
        None \<Rightarrow> w
      | Some k \<Rightarrow>
          (case editingEntry w of
             None \<Rightarrow> w
           | Some ee \<Rightarrow>
               (let w1 = w\<lparr>isUpdating := True, error := ''''\<rparr>;
                    w3 = (case update_try env k ee w1 of
                            (Inr u, w2) \<Rightarrow> handleUnlock env (w2\<lparr>editingEntry := None\<rparr>)
                          | (Inl e, w2) \<Rightarrow>
                              w2\<lparr>console := console w2 @ [ConsoleError ''Edit failed'' e],
                                 error := ''Failed to update entry.''\<rparr>)
                in w3\<lparr>isUpdating := False\<rparr>)))"

text \<open>\<open>handleDelete\<close>; \<open>confirmed\<close> is the answer of \<open>window.confirm\<close>.\<close>

definition handleDelete :: "'srv env \<Rightarrow> string \<Rightarrow> bool \<Rightarrow> 'srv world \<Rightarrow> 'srv world" where
  "handleDelete env entryId confirmed w =
     (if \<not> confirmed then w
      else case mutate (DeleteEntry entryId) (deleteEntry env entryId) w of
             (Inr u, w2) \<Rightarrow> handleUnlock env w2
           | (Inl e, w2) \<Rightarrow>
               w2\<lparr>console := console w2 @ [ConsoleError ''Delete failed'' e],
                  error := ''Failed to delete entry.''\<rparr>)"

subsection \<open>What the user and the clock can do\<close>

datatype field = Website | Username | Password | Notes

datatype event =
    ChangeMasterPassword string
  | ClickUnlock
  | ClickAddEntry
  | ChangeNewEntry field string
  | SubmitAdd
  | CancelAdd
  | ClickEdit nat
  | ChangeEditing field string
  | SubmitEdit
  | CancelEdit
  | ClickDelete nat bool
  | Activity
  | Elapse nat

fun setNewField :: "field \<Rightarrow> string \<Rightarrow> new_entry \<Rightarrow> new_entry" where
  "setNewField Website v ne = ne\<lparr>new_website := v\<rparr>"
| "setNewField Username v ne = ne\<lparr>new_username := v\<rparr>"
| "setNewField Password v ne = ne\<lparr>new_password := v\<rparr>"
| "setNewField Notes v ne = ne\<lparr>new_notes := v\<rparr>"

fun setEditingField :: "field \<Rightarrow> string \<Rightarrow> decrypted_entry \<Rightarrow> decrypted_entry" where
  "setEditingField Website v ee = ee\<lparr>decryptedWebsite := v\<rparr>"
| "setEditingField Username v ee = ee\<lparr>decryptedUsername := v\<rparr>"
| "setEditingField Password v ee = ee\<lparr>decryptedPassword := v\<rparr>"
| "setEditingField Notes v ee = ee\<lparr>decryptedNotes := v\<rparr>"

text \<open>
  The handler an event reaches. The locked view (lines 198-220) renders the password
  input and the unlock button only; the unlocked view renders the table, and each form
  only while its flag is set. An event on an element that is not rendered does nothing.
\<close>

fun handler :: "'srv env \<Rightarrow> event \<Rightarrow> 'srv world \<Rightarrow> 'srv world" where
  "handler env (ChangeMasterPassword v) w =
     (if \<not> vaultUnlocked w then w\<lparr>masterPassword := v\<rparr> else w)"
| "handler env ClickUnlock w =
     (if \<not> vaultUnlocked w \<and> \<not> isUnlocking w then handleUnlock env w else w)"
| "handler env ClickAddEntry w =
     (if vaultUnlocked w then w\<lparr>showAddForm := True\<rparr> else w)"
| "handler env (ChangeNewEntry f v) w =
     (if vaultUnlocked w \<and> showAddForm w
      then w\<lparr>newEntry := setNewField f v (newEntry w)\<rparr> else w)"
| "handler env SubmitAdd w =
     (if vaultUnlocked w \<and> showAddForm w then handleAddEntry env w else w)"
| "handler env CancelAdd w =
     (if vaultUnlocked w \<and> showAddForm w then w\<lparr>showAddForm := False\<rparr> else w)"
| "handler env (ClickEdit i) w =
     (if vaultUnlocked w \<and> i < length (credentials w)
      then w\<lparr>editingEntry := Some (credentials w ! i)\<rparr> else w)"
| "handler env (ChangeEditing f v) w =
     (case editingEntry w of
        Some ee \<Rightarrow>
          if vaultUnlocked w then w\<lparr>editingEntry := Some (setEditingField f v ee)\<rparr> else w
      | None \<Rightarrow> w)"
| "handler env SubmitEdit w =
     (if vaultUnlocked w \<and> editingEntry w \<noteq> None then handleUpdateEntry env w else w)"
| "handler env CancelEdit w =
     (if vaultUnlocked w \<and> editingEntry w \<noteq> None then w\<lparr>editingEntry := None\<rparr> else w)"
| "handler env (ClickDelete i confirmed) w =
     (if vaultUnlocked w \<and> i < length (credentials w)
      then handleDelete env (entry_id (entry (credentials w ! i))) confirmed w else w)"
| "handler env Activity w = handleActivity w"
| "handler env (Elapse d) w = w"

definition step :: "'srv env \<Rightarrow> event \<Rightarrow> 'srv world \<Rightarrow> 'srv world" where
  "step env ev w = (case ev of Elapse d \<Rightarrow> elapse d w | _ \<Rightarrow> commit (handler env ev) w)"

text \<open>A sequence of events, one after the other.\<close>

definition run :: "'srv env \<Rightarrow> event list \<Rightarrow> 'srv world \<Rightarrow> 'srv world" where
  "run env evs w = fold (step env) evs w"

text \<open>The states the component can be in: the first render, then any sequence of events.\<close>

inductive reachable :: "'srv env \<Rightarrow> 'srv \<Rightarrow> 'srv world \<Rightarrow> bool" for env srv where
  reachable_initial: "reachable env srv (initial srv)"
| reachable_step: "reachable env srv w \<Longrightarrow> reachable env srv (step env ev w)"

subsection \<open>Handlers in flight\<close>

text \<open>
  An \<open>async\<close> handler returns at its first \<open>await\<close> and goes on when the awaited
  promise has resolved; other handlers and the timer callback may run in between. A
  handler in flight is a \<open>task\<close>: what is left of it to run, with the values its closure
  captured when it was called (the master password, the key, the form contents). The
  awaits between which no cell is written are taken together, so that a handler is cut
  where it writes: \<open>handleUnlock\<close> after lines 82-83, the mutation handlers after their
  first writes and again at their call of \<open>handleUnlock()\<close>, which is not awaited.
\<close>

datatype task =
    UnlockEnd string
  | AddEnd CryptoKey new_entry string
  | UpdateEnd CryptoKey decrypted_entry string
  | DeleteEnd string string

text \<open>Lines 82-83: what \<open>handleUnlock\<close> does before its first \<open>await\<close>.\<close>

definition handleUnlock_begin :: "'srv world \<Rightarrow> 'srv world" where
  "handleUnlock_begin w = w\<lparr>error := '''', isUnlocking := True\<rparr>"

text \<open>
  Lines 86-146, run in the state \<open>w\<close> the component is in by then; \<open>pw\<close> is the
  \<open>masterPassword\<close> of the closure.
\<close>

definition handleUnlock_end :: "'srv env \<Rightarrow> string \<Rightarrow> 'srv world \<Rightarrow> 'srv world" where
  "handleUnlock_end env pw w =
     (let w3 = (case unlock_try env (w\<lparr>masterPassword := pw\<rparr>) of
                  (Inr (k, decrypted), w2) \<Rightarrow>
                    w\<lparr>calls := calls w2, aesKey := Some k, credentials := decrypted,
                      vaultUnlocked := True\<rparr>
                | (Inl e, w2) \<Rightarrow>
                    w\<lparr>calls := calls w2, console := console w @ [ConsoleError '''' e],
                      error := unlock_message\<rparr>)
      in w3\<lparr>isUnlocking := False\<rparr>)"

text \<open>
  The rest of \<open>handleAddEntry\<close> after lines 153-154, of the edit form's handler after
  lines 370-371 and of \<open>handleDelete\<close> after the confirmation, each up to its return:
  the new state, and whether a refresh has been started.
\<close>

definition handleAddEntry_end :: "'srv env \<Rightarrow> CryptoKey \<Rightarrow> new_entry \<Rightarrow> 'srv world \<Rightarrow> 'srv world \<times> bool" where
  "handleAddEntry_end env k ne w =
     (case add_try env k ne w of
        (Inr u, w2) \<Rightarrow>
          ((handleUnlock_begin (w2\<lparr>showAddForm := False, newEntry := emptyEntry\<rparr>))\<lparr>isAdding := False\<rparr>,
           True)
      | (Inl e, w2) \<Rightarrow>
          (w2\<lparr>console := console w2 @ [ConsoleError ''Add entry failed'' e],
              error := ''Failed to add entry.'', isAdding := False\<rparr>,
           False))"

definition handleUpdateEntry_end ::
  "'srv env \<Rightarrow> CryptoKey \<Rightarrow> decrypted_entry \<Rightarrow> 'srv world \<Rightarrow> 'srv world \<times> bool" where
  "handleUpdateEntry_end env k ee w =
     (case update_try env k ee w of
        (Inr u, w2) \<Rightarrow>
          ((handleUnlock_begin (w2\<lparr>editingEntry := None\<rparr>))\<lparr>isUpdating := False\<rparr>, True)
      | (Inl e, w2) \<Rightarrow>
          (w2\<lparr>console := console w2 @ [ConsoleError ''Edit failed'' e],
              error := ''Failed to update entry.'', isUpdating := False\<rparr>,
           False))"

definition handleDelete_end :: "'srv env \<Rightarrow> string \<Rightarrow> 'srv world \<Rightarrow> 'srv world \<times> bool" where
  "handleDelete_end env entryId w =
     (case mutate (DeleteEntry entryId) (deleteEntry env entryId) w of
        (Inr u, w2) \<Rightarrow> (handleUnlock_begin w2, True)
      | (Inl e, w2) \<Rightarrow>
          (w2\<lparr>console := console w2 @ [ConsoleError ''Delete failed'' e],
              error := ''Failed to delete entry.''\<rparr>,
           False))"

text \<open>
  An event whose handler is \<open>async\<close>: the state when the handler returns at its first
  \<open>await\<close>, and the task then in flight. The events are enabled as in \<open>handler\<close>.
\<close>

fun launch :: "event \<Rightarrow> 'srv world \<Rightarrow> ('srv world \<times> task) option" where
  "launch ClickUnlock w =
     (if \<not> vaultUnlocked w \<and> \<not> isUnlocking w
      then Some (handleUnlock_begin w, UnlockEnd (masterPassword w)) else None)"
| "launch SubmitAdd w =
     (if vaultUnlocked w \<and> showAddForm w
      then (case aesKey w of
              None \<Rightarrow> None
            | Some k \<Rightarrow> Some (w\<lparr>isAdding := True, error := ''''\<rparr>,
                              AddEnd k (newEntry w) (masterPassword w)))
      else None)"
| "launch SubmitEdit w =
     (if vaultUnlocked w
      then (case (aesKey w, editingEntry w) of
              (Some k, Some ee) \<Rightarrow> Some (w\<lparr>isUpdating := True, error := ''''\<rparr>,
                                         UpdateEnd k ee (masterPassword w))
            | _ \<Rightarrow> None)
      else None)"
| "launch (ClickDelete i confirmed) w =
     (if vaultUnlocked w \<and> i < length (credentials w) \<and> confirmed
      then Some (w, DeleteEnd (entry_id (entry (credentials w ! i))) (masterPassword w))
      else None)"
| "launch _ w = None"

text \<open>A task goes on: the state it leaves, and the refresh it has started, if any.\<close>

fun resume :: "'srv env \<Rightarrow> task \<Rightarrow> 'srv world \<Rightarrow> 'srv world \<times> task list" where
  "resume env (UnlockEnd pw) w = (handleUnlock_end env pw w, [])"
| "resume env (AddEnd k ne pw) w =
     (case handleAddEntry_end env k ne w of
        (w', started) \<Rightarrow> (w', if started then [UnlockEnd pw] else []))"
| "resume env (UpdateEnd k ee pw) w =
     (case handleUpdateEntry_end env k ee w of
        (w', started) \<Rightarrow> (w', if started then [UnlockEnd pw] else []))"
| "resume env (DeleteEnd entryId pw) w =
     (case handleDelete_end env entryId w of
        (w', started) \<Rightarrow> (w', if started then [UnlockEnd pw] else []))"

text \<open>
  The states the component can be in, with the tasks in flight, when handlers
  interleave: an event may run its handler to the end as in \<open>step\<close>, or only start it;
  a task in flight may go on at any time, and the render that follows runs the effect.
\<close>

inductive async_reachable :: "'srv env \<Rightarrow> 'srv \<Rightarrow> 'srv world \<Rightarrow> task list \<Rightarrow> bool" for env srv where
  async_initial: "async_reachable env srv (initial srv) []"
| async_step: "async_reachable env srv w ts \<Longrightarrow> async_reachable env srv (step env ev w) ts"
| async_launch:
    "async_reachable env srv w ts \<Longrightarrow> launch ev w = Some (w', t) \<Longrightarrow>
     async_reachable env srv w' (ts @ [t])"
| async_resume:
    "async_reachable env srv w ts \<Longrightarrow> t \<in> set ts \<Longrightarrow> resume env t w = (w', ts') \<Longrightarrow>
     async_reachable env srv (autoLockEffect (vaultUnlocked w) w') (remove1 t ts @ ts')"

subsection \<open>Vocabulary for the properties\<close>

text \<open>The calls a handler has made: those recorded since the state \<open>w\<close> it started in.\<close>

definition new_calls :: "'srv world \<Rightarrow> 'srv world \<Rightarrow> call list" where
  "new_calls w w' = drop (length (calls w)) (calls w')"

fun is_decrypt :: "call \<Rightarrow> bool" where
  "is_decrypt (DecryptData c i k) = True"
| "is_decrypt _ = False"

fun is_encrypt :: "call \<Rightarrow> bool" where
  "is_encrypt (EncryptData p k) = True"
| "is_encrypt _ = False"

text \<open>
  At most the timer whose handle is in \<open>timeoutRef\<close> is pending, and a handle is never
  \<open>0\<close> (\<open>setTimeout\<close> returns a positive number).
\<close>

definition timer_inv :: "'srv world \<Rightarrow> bool" where
  "timer_inv w \<longleftrightarrow>
     nextHandle w \<noteq> 0 \<and>
     (case timeoutRef w of
        None \<Rightarrow> pending w = []
      | Some h \<Rightarrow> h \<noteq> 0 \<and> list_all (\<lambda>p. fst p = h) (pending w))"

text \<open>The envelope decrypts under the key.\<close>

definition opens :: "'srv env \<Rightarrow> CryptoKey \<Rightarrow> envelope \<Rightarrow> bool" where
  "opens env k v \<longleftrightarrow> \<not> isl (decryptData env (cipherText v) (iv v) k)"

definition plain :: "'srv env \<Rightarrow> CryptoKey \<Rightarrow> envelope \<Rightarrow> string" where
  "plain env k v = projr (decryptData env (cipherText v) (iv v) k)"

text \<open>
  Every field of the entry decrypts: \<open>website\<close>, \<open>username\<close> and \<open>password\<close> are
  present and open, and \<open>notes\<close> opens if it is present.
\<close>

definition entry_decrypts :: "'srv env \<Rightarrow> CryptoKey \<Rightarrow> encrypted_entry \<Rightarrow> bool" where
  "entry_decrypts env k e \<longleftrightarrow>
     (case website e of None \<Rightarrow> False | Some v \<Rightarrow> opens env k v) \<and>
     (case username e of None \<Rightarrow> False | Some v \<Rightarrow> opens env k v) \<and>
     (case password e of None \<Rightarrow> False | Some v \<Rightarrow> opens env k v) \<and>
     (case notes' e of None \<Rightarrow> True | Some v \<Rightarrow> opens env k v)"

text \<open>The plaintext view of an entry all of whose fields decrypt.\<close>

definition plain_entry :: "'srv env \<Rightarrow> CryptoKey \<Rightarrow> encrypted_entry \<Rightarrow> decrypted_entry" where
  "plain_entry env k e =
     \<lparr>entry = e,
      decryptedWebsite = plain env k (the (website e)),
      decryptedUsername = plain env k (the (username e)),
      decryptedPassword = plain env k (the (password e)),
      decryptedNotes = (case notes' e of None \<Rightarrow> '''' | Some v \<Rightarrow> plain env k v)\<rparr>"

text \<open>The decrypt calls made for an entry all of whose fields decrypt.\<close>

definition entry_calls :: "CryptoKey \<Rightarrow> encrypted_entry \<Rightarrow> call list" where
  "entry_calls k e =
     map (\<lambda>v. DecryptData (cipherText v) (iv v) k)
       ([the (website e), the (username e), the (password e)] @
        (case notes' e of None \<Rightarrow> [] | Some v \<Rightarrow> [v]))"

text \<open>
  The sub-steps of the unlock flow, in the order of the source, and the first of them
  that fails for a given master password and backend state (\<open>None\<close>: none fails).
\<close>

datatype sub_step =
    FetchParameters
  | MissingParameters
  | SaltDecoding
  | KeyDerivation
  | TagComputation
  | Verification
  | StorageFetch
  | FieldDecryption

definition first_failure :: "'srv env \<Rightarrow> string \<Rightarrow> 'srv \<Rightarrow> sub_step option" where
  "first_failure env pw srv =
     (case getEncryptionSalt env srv of
        Inl e \<Rightarrow> Some FetchParameters
      | Inr r \<Rightarrow>
         (case (encryptionSalt r, keyDerivationMethod r, verification r) of
            (Some salt, Some method, Some v) \<Rightarrow>
              if salt = '''' \<or> method = '''' then Some MissingParameters
              else
               (case base64ToBuffer env salt of
                  Inl e \<Rightarrow> Some SaltDecoding
                | Inr buf \<Rightarrow>
                   (case deriveKey env pw buf method of
                      Inl e \<Rightarrow> Some KeyDerivation
                    | Inr keys \<Rightarrow>
                       (case createHMAC env (snd keys) (secret v) of
                          Inl e \<Rightarrow> Some TagComputation
                        | Inr tag \<Rightarrow>
                            if tag \<noteq> hmac v then Some Verification
                            else
                             (case getEncryptedVault env srv of
                                Inl e \<Rightarrow> Some StorageFetch
                              | Inr es \<Rightarrow>
                                  if list_all (entry_decrypts env (fst keys)) es then None
                                  else Some FieldDecryption))))
          | _ \<Rightarrow> Some MissingParameters))"

text \<open>The calls the unlock flow makes: none of them changes the backend.\<close>

fun is_unlock_call :: "call \<Rightarrow> bool" where
  "is_unlock_call (EncryptData p k) = False"
| "is_unlock_call (AddEntry p) = False"
| "is_unlock_call (UpdateEntry i p) = False"
| "is_unlock_call (DeleteEntry i) = False"
| "is_unlock_call _ = True"

text \<open>The timer table, the timer handle and the listeners are the same in both states.\<close>

definition same_timers :: "'srv world \<Rightarrow> 'srv world \<Rightarrow> bool" where
  "same_timers w w' \<longleftrightarrow>
     timeoutRef w' = timeoutRef w \<and> pending w' = pending w \<and> nextHandle w' = nextHandle w \<and>
     now w' = now w \<and> listening w' = listening w"

text \<open>
  The vault is unlocked, the listeners are attached, and the one pending timer is the
  auto-lock timer with handle \<open>h\<close>, due at time \<open>t\<close>.
\<close>

definition armed :: "'srv world \<Rightarrow> nat \<Rightarrow> nat \<Rightarrow> bool" where
  "armed w h t \<longleftrightarrow>
     vaultUnlocked w \<and> listening w \<and> timeoutRef w = Some h \<and> h \<noteq> 0 \<and>
     pending w = [(h, t)] \<and> nextHandle w \<noteq> 0"

text \<open>
  The error text the user sees: the locked view renders \<open>error\<close> (line 217), the
  unlocked view does not.
\<close>

definition shownError :: "'srv world \<Rightarrow> string" where
  "shownError w = (if vaultUnlocked w then [] else error w)"

text \<open>
  What \<open>lockVault\<close> is to leave: no key, no decrypted entry, nothing being edited, the add
  form closed, the password cell empty, no timer.
\<close>

definition wiped :: "'srv world \<Rightarrow> bool" where
  "wiped w \<longleftrightarrow>
     \<not> vaultUnlocked w \<and> aesKey w = None \<and> credentials w = [] \<and> editingEntry w = None \<and>
     \<not> showAddForm w \<and> masterPassword w = [] \<and> timeoutRef w = None \<and> pending w = []"

text \<open>
  The second state differs from the first at most in the recorded calls, the nonce count
  and the backend: every cell of the component and the timer table are the same.
\<close>

definition io_only :: "'srv world \<Rightarrow> 'srv world \<Rightarrow> bool" where
  "io_only w w' \<longleftrightarrow>
     masterPassword w' = masterPassword w \<and> vaultUnlocked w' = vaultUnlocked w \<and>
     credentials w' = credentials w \<and> editingEntry w' = editingEntry w \<and>
     error w' = error w \<and> isUnlocking w' = isUnlocking w \<and> isAdding w' = isAdding w \<and>
     isUpdating w' = isUpdating w \<and> showAddForm w' = showAddForm w \<and>
     newEntry w' = newEntry w \<and> aesKey w' = aesKey w \<and> console w' = console w \<and>
     same_timers w w'"

subsection \<open>A concrete environment for evaluation\<close>

text \<open>
  A toy backend and toy cryptography, used to run the handlers on concrete inputs: the
  backend state is the list of stored entries; a key is a tag that encryption prepends
  and decryption checks and strips.
\<close>

definition demo_deriveKey :: "string \<Rightarrow> string \<Rightarrow> string \<Rightarrow> js_error + (CryptoKey \<times> CryptoKey)" where
  "demo_deriveKey pw salt method =
     (if method = ''kdf-v1'' then Inr (CryptoKey (''E'' @ pw @ salt), CryptoKey (''A'' @ pw @ salt))
      else Inl (Error ''Unsupported key derivation method''))"

definition demo_createHMAC :: "CryptoKey \<Rightarrow> string \<Rightarrow> js_error + string" where
  "demo_createHMAC k s = (case k of CryptoKey t \<Rightarrow> Inr (t @ s))"

definition demo_encryptData :: "string \<Rightarrow> CryptoKey \<Rightarrow> nat \<Rightarrow> js_error + envelope" where
  "demo_encryptData p k n =
     (case k of CryptoKey t \<Rightarrow> Inr \<lparr>cipherText = t @ p, iv = replicate n (CHR ''n'')\<rparr>)"

definition demo_decryptData :: "string \<Rightarrow> string \<Rightarrow> CryptoKey \<Rightarrow> js_error + string" where
  "demo_decryptData c i k =
     (case k of CryptoKey t \<Rightarrow>
        if take (length t) c = t then Inr (drop (length t) c) else Inl (Error ''OperationError''))"

definition demo_stored :: "nat \<Rightarrow> payload \<Rightarrow> encrypted_entry" where
  "demo_stored n p =
     \<lparr>entry_id = replicate (Suc n) (CHR ''i''), website = Some (payload_website p),
      username = Some (payload_username p), password = Some (payload_password p),
      notes' = payload_notes p\<rparr>"

definition demo_env :: "(encrypted_entry list) env" where
  "demo_env =
     \<lparr>getEncryptionSalt = (\<lambda>srv. Inr \<lparr>encryptionSalt = Some ''S1'', keyDerivationMethod = Some ''kdf-v1'',
                                     verification = Some \<lparr>secret = ''c'', hmac = ''ApwS1c''\<rparr>\<rparr>),
      base64ToBuffer = (\<lambda>s. Inr s),
      deriveKey = demo_deriveKey,
      createHMAC = demo_createHMAC,
      getEncryptedVault = (\<lambda>srv. Inr srv),
      decryptData = demo_decryptData,
      encryptData = demo_encryptData,
      addEntry = (\<lambda>p srv. Inr (srv @ [demo_stored (length srv) p])),
      updateEntry = (\<lambda>i p srv. Inr (map (\<lambda>e. if entry_id e = i then (demo_stored 0 p)\<lparr>entry_id := i\<rparr> else e) srv)),
      deleteEntry = (\<lambda>i srv. Inr (filter (\<lambda>e. entry_id e \<noteq> i) srv))\<rparr>"

text \<open>The same backend while the request for the stored entries fails.\<close>

definition offline_env :: "(encrypted_entry list) env" where
  "offline_env = demo_env\<lparr>getEncryptedVault := (\<lambda>srv. Inl (Error ''Network Error''))\<rparr>"

text \<open>The same backend when it sends no key-derivation method.\<close>

definition incomplete_env :: "(encrypted_entry list) env" where
  "incomplete_env =
     demo_env\<lparr>getEncryptionSalt := (\<lambda>srv. Inr \<lparr>encryptionSalt = Some ''S1'', keyDerivationMethod = None,
                                                 verification = Some \<lparr>secret = ''c'', hmac = ''ApwS1c''\<rparr>\<rparr>)\<rparr>"

text \<open>An entry with all four fields, and one without notes, both under the key of password \<open>pw\<close>.\<close>

definition demo_entry :: encrypted_entry where
  "demo_entry =
     \<lparr>entry_id = ''i'', website = Some \<lparr>cipherText = ''EpwS1example.com'', iv = ''''\<rparr>,
      username = Some \<lparr>cipherText = ''EpwS1alice'', iv = ''n''\<rparr>,
      password = Some \<lparr>cipherText = ''EpwS1p@ss'', iv = ''nn''\<rparr>,
      notes' = None\<rparr>"

text \<open>An entry whose username envelope is missing, and one whose password was encrypted under another key.\<close>

definition no_username_entry :: encrypted_entry where
  "no_username_entry = demo_entry\<lparr>entry_id := ''ii'', username := None\<rparr>"

definition foreign_entry :: encrypted_entry where
  "foreign_entry =
     demo_entry\<lparr>entry_id := ''iii'', password := Some \<lparr>cipherText = ''EotherS1p@ss'', iv = ''nn''\<rparr>\<rparr>"

text \<open>The locked component after the user has typed a password.\<close>

definition typed :: "string \<Rightarrow> encrypted_entry list \<Rightarrow> (encrypted_entry list) world" where
  "typed pw srv = step demo_env (ChangeMasterPassword pw) (initial srv)"

text \<open>The component unlocked with the right password, and then with the add form filled in.\<close>

definition unlocked_demo :: "encrypted_entry list \<Rightarrow> (encrypted_entry list) world" where
  "unlocked_demo srv = step demo_env ClickUnlock (typed ''pw'' srv)"

definition filling_demo :: "string \<Rightarrow> encrypted_entry list \<Rightarrow> (encrypted_entry list) world" where
  "filling_demo n srv =
     fold (step demo_env)
       [ClickAddEntry, ChangeNewEntry Website ''w'', ChangeNewEntry Username ''u'',
        ChangeNewEntry Password ''p'', ChangeNewEntry Notes n]
       (unlocked_demo srv)"

text \<open>
  While the session is locked there is no key, no decrypted entry, no entry being
  edited, the add form is closed, no timer is pending or referenced and the activity
  listeners are detached.
\<close>

definition locked_inv :: "'srv world \<Rightarrow> bool" where
  "locked_inv w \<longleftrightarrow>
     (\<not> vaultUnlocked w \<longrightarrow>
        aesKey w = None \<and> credentials w = [] \<and> editingEntry w = None \<and> \<not> showAddForm w \<and>
        timeoutRef w = None \<and> pending w = [] \<and> \<not> listening w)"

text \<open>
  An add in flight when the auto-lock fires: the add form is filled in and submitted,
  60 s pass, then the add and the refresh it starts go on.
\<close>

definition submitted_demo :: "(encrypted_entry list) world" where
  "submitted_demo = fst (the (launch SubmitAdd (filling_demo ''n'' [demo_entry])))"

definition submitted_task :: task where
  "submitted_task = snd (the (launch SubmitAdd (filling_demo ''n'' [demo_entry])))"

definition locked_in_flight :: "(encrypted_entry list) world" where
  "locked_in_flight = step demo_env (Elapse 60000) submitted_demo"

definition added_after_lock :: "(encrypted_entry list) world" where
  "added_after_lock =
     autoLockEffect (vaultUnlocked locked_in_flight)
       (fst (resume demo_env submitted_task locked_in_flight))"

definition refreshed_after_lock :: "(encrypted_entry list) world" where
  "refreshed_after_lock =
     autoLockEffect (vaultUnlocked added_after_lock)
       (fst (resume demo_env (UnlockEnd ''pw'') added_after_lock))"

section \<open>Properties\<close>

subsection \<open>Decryption of the stored entries\<close>

lemma opens_Inr: "opens env k v \<Longrightarrow> decryptData env (cipherText v) (iv v) k = Inr (plain env k v)"
  by (simp add: opens_def plain_def)

lemma not_opens_Inl: "\<not> opens env k v \<Longrightarrow> \<exists>e. decryptData env (cipherText v) (iv v) k = Inl e"
  by (cases "decryptData env (cipherText v) (iv v) k") (simp_all add: opens_def)

lemma decryptField_Some:
  "decryptField env k n (Some v) w =
     (decryptData env (cipherText v) (iv v) k,
      w\<lparr>calls := calls w @ [DecryptData (cipherText v) (iv v) k]\<rparr>)"
  by (simp add: decryptField_def invoke_def)

lemma decryptEntry_ok:
  assumes "entry_decrypts env k e"
  shows "decryptEntry env k e w = (Inr (plain_entry env k e), w\<lparr>calls := calls w @ entry_calls k e\<rparr>)"
proof -
  from assms obtain a b c where f: "website e = Some a" "username e = Some b" "password e = Some c"
    and o: "opens env k a" "opens env k b" "opens env k c"
    by (auto simp: entry_decrypts_def split: option.splits)
  from assms have n: "\<And>v. notes' e = Some v \<Longrightarrow> opens env k v"
    by (auto simp: entry_decrypts_def split: option.splits)
  show ?thesis
  proof (cases "notes' e")
    case None
    then show ?thesis
      by (simp add: decryptEntry_def await_def decryptField_Some return_io_def f o opens_Inr
            plain_entry_def entry_calls_def)
  next
    case (Some v)
    then show ?thesis
      by (simp add: decryptEntry_def await_def decryptField_Some return_io_def f o n opens_Inr
            plain_entry_def entry_calls_def)
  qed
qed

lemma decryptEntry_fail:
  assumes "\<not> entry_decrypts env k e"
  shows "\<exists>err t. decryptEntry env k e w = (Inl err, w\<lparr>calls := calls w @ t\<rparr>) \<and> list_all is_decrypt t"
proof -
  have nil: "w = w\<lparr>calls := calls w @ []\<rparr>" by simp
  show ?thesis
  proof (cases "website e")
    case None
    then show ?thesis
      apply (simp add: decryptEntry_def await_def decryptField_def throw_def)
      apply (rule exI[of _ "[]"]) by simp
  next
    case a: (Some a)
    show ?thesis
    proof (cases "opens env k a")
      case False
      then obtain err where "decryptData env (cipherText a) (iv a) k = Inl err"
        using not_opens_Inl by blast
      then show ?thesis
        by (simp add: decryptEntry_def await_def decryptField_Some a)
          (rule exI[of _ "[DecryptData (cipherText a) (iv a) k]"], simp)
    next
      case oa: True
      show ?thesis
      proof (cases "username e")
        case None
        then show ?thesis
          by (simp add: decryptEntry_def await_def decryptField_Some a oa opens_Inr
              decryptField_def[of _ _ _ None] throw_def)
            (rule exI[of _ "[DecryptData (cipherText a) (iv a) k]"], simp)
      next
        case b: (Some b)
        show ?thesis
        proof (cases "opens env k b")
          case False
          then obtain err where "decryptData env (cipherText b) (iv b) k = Inl err"
            using not_opens_Inl by blast
          then show ?thesis
            by (simp add: decryptEntry_def await_def decryptField_Some a oa b opens_Inr)
              (rule exI[of _ "[DecryptData (cipherText a) (iv a) k, DecryptData (cipherText b) (iv b) k]"], simp)
        next
          case ob: True
          show ?thesis
          proof (cases "password e")
            case None
            then show ?thesis
              by (simp add: decryptEntry_def await_def decryptField_Some a oa b ob opens_Inr
                  decryptField_def[of _ _ _ None] throw_def)
                (rule exI[of _ "[DecryptData (cipherText a) (iv a) k, DecryptData (cipherText b) (iv b) k]"], simp)
          next
            case c: (Some c)
            show ?thesis
            proof (cases "opens env k c")
              case False
              then obtain err where "decryptData env (cipherText c) (iv c) k = Inl err"
                using not_opens_Inl by blast
              then show ?thesis
                by (simp add: decryptEntry_def await_def decryptField_Some a oa b ob c opens_Inr)
                  (rule exI[of _ "[DecryptData (cipherText a) (iv a) k, DecryptData (cipherText b) (iv b) k,
                      DecryptData (cipherText c) (iv c) k]"], simp)
            next
              case oc: True
              with assms a b c oa ob obtain d where d: "notes' e = Some d" and nd: "\<not> opens env k d"
                by (auto simp: entry_decrypts_def split: option.splits)
              then obtain err where "decryptData env (cipherText d) (iv d) k = Inl err"
                using not_opens_Inl by blast
              then show ?thesis
                by (simp add: decryptEntry_def await_def decryptField_Some a oa b ob c oc d opens_Inr)
                  (rule exI[of _ "[DecryptData (cipherText a) (iv a) k, DecryptData (cipherText b) (iv b) k,
                      DecryptData (cipherText c) (iv c) k, DecryptData (cipherText d) (iv d) k]"], simp)
            qed
          qed
        qed
      qed
    qed
  qed
qed

lemma entry_calls_decrypt: "list_all is_decrypt (entry_calls k e)"
  by (simp add: entry_calls_def split: option.splits)


lemma decryptEntry_shape:
  "\<exists>r t. decryptEntry env k e w = (r, w\<lparr>calls := calls w @ t\<rparr>) \<and> list_all is_decrypt t \<and>
         (if entry_decrypts env k e then r = Inr (plain_entry env k e) \<and> t = entry_calls k e else isl r)"
proof (cases "entry_decrypts env k e")
  case True
  then show ?thesis
    using decryptEntry_ok[of env k e w] entry_calls_decrypt[of k e] by auto
next
  case False
  then show ?thesis
    using decryptEntry_fail[of env k e w] by auto
qed

lemma promise_all_shape:
  "\<exists>r t. promise_all (map (decryptEntry env k) es) w = (r, w\<lparr>calls := calls w @ t\<rparr>) \<and>
         list_all is_decrypt t \<and>
         (if list_all (entry_decrypts env k) es then r = Inr (map (plain_entry env k) es) else isl r)"
proof (induction es arbitrary: w)
  case Nil
  have "promise_all (map (decryptEntry env k) []) w = (Inr [], w\<lparr>calls := calls w @ []\<rparr>)"
    by simp
  then show ?case by (intro exI[of _ "Inr []"] exI[of _ "[]"]) simp
next
  case (Cons e es)
  obtain r1 t1 where 1: "decryptEntry env k e w = (r1, w\<lparr>calls := calls w @ t1\<rparr>)"
    and d1: "list_all is_decrypt t1"
    and r1: "if entry_decrypts env k e then r1 = Inr (plain_entry env k e) else isl r1"
    using decryptEntry_shape[of env k e w] by meson
  obtain r2 t2 where 2: "promise_all (map (decryptEntry env k) es) (w\<lparr>calls := calls w @ t1\<rparr>)
        = (r2, w\<lparr>calls := calls w @ (t1 @ t2)\<rparr>)"
    and d2: "list_all is_decrypt t2"
    and r2: "if list_all (entry_decrypts env k) es then r2 = Inr (map (plain_entry env k) es) else isl r2"
  proof -
    from Cons.IH[of "w\<lparr>calls := calls w @ t1\<rparr>"] obtain r2 t2 where
      a: "promise_all (map (decryptEntry env k) es) (w\<lparr>calls := calls w @ t1\<rparr>)
        = (r2, (w\<lparr>calls := calls w @ t1\<rparr>)\<lparr>calls := calls (w\<lparr>calls := calls w @ t1\<rparr>) @ t2\<rparr>)"
      and b: "list_all is_decrypt t2"
      and c: "if list_all (entry_decrypts env k) es then r2 = Inr (map (plain_entry env k) es) else isl r2"
      by meson
    have "(w\<lparr>calls := calls w @ t1\<rparr>)\<lparr>calls := calls (w\<lparr>calls := calls w @ t1\<rparr>) @ t2\<rparr>
        = w\<lparr>calls := calls w @ (t1 @ t2)\<rparr>" by simp
    with a have "promise_all (map (decryptEntry env k) es) (w\<lparr>calls := calls w @ t1\<rparr>)
        = (r2, w\<lparr>calls := calls w @ (t1 @ t2)\<rparr>)" by simp
    with b c that show ?thesis by blast
  qed
  define r where "r = (case r1 of Inl e \<Rightarrow> Inl e
                        | Inr x \<Rightarrow> (case r2 of Inl e \<Rightarrow> Inl e | Inr xs \<Rightarrow> Inr (x # xs)))"
  have "promise_all (decryptEntry env k e # map (decryptEntry env k) es) w
          = (r, w\<lparr>calls := calls w @ (t1 @ t2)\<rparr>)"
    by (simp add: 1 2 r_def split: sum.splits)
  then have eq: "promise_all (map (decryptEntry env k) (e # es)) w = (r, w\<lparr>calls := calls w @ (t1 @ t2)\<rparr>)"
    by simp
  have d: "list_all is_decrypt (t1 @ t2)" using d1 d2 by simp
  have rr: "if list_all (entry_decrypts env k) (e # es)
            then r = Inr (map (plain_entry env k) (e # es)) else isl r"
    using r1 r2 unfolding r_def by (auto split: sum.splits if_splits)
  from eq d rr show ?case by blast
qed

text \<open>
  The run of the \<open>try\<close> block when the server parameters are complete, the keys are
  derived, the tag matches and the stored entries arrive: five calls, then the decrypt
  calls of \<open>Promise.all\<close>.
\<close>

lemma unlock_try_verified:
  assumes "getEncryptionSalt env (server w) = Inr r"
    and "encryptionSalt r = Some salt" and "salt \<noteq> []"
    and "keyDerivationMethod r = Some meth" and "meth \<noteq> []"
    and "verification r = Some v"
    and "base64ToBuffer env salt = Inr buf"
    and "deriveKey env (masterPassword w) buf meth = Inr (ak, hk)"
    and "createHMAC env hk (secret v) = Inr (hmac v)"
    and "getEncryptedVault env (server w) = Inr es"
  shows "\<exists>rs t. unlock_try env w =
            ((case rs of Inl e \<Rightarrow> Inl e | Inr ds \<Rightarrow> Inr (ak, ds)),
             w\<lparr>calls := calls w @
                 ([GetEncryptionSalt, Base64ToBuffer salt, DeriveKey (masterPassword w) buf meth,
                   CreateHMAC hk (secret v), GetEncryptedVault] @ t)\<rparr>) \<and>
          list_all is_decrypt t \<and>
          (if list_all (entry_decrypts env ak) es
           then rs = Inr (map (plain_entry env ak) es) else isl rs)"
proof -
  let ?t5 = "[GetEncryptionSalt, Base64ToBuffer salt, DeriveKey (masterPassword w) buf meth,
              CreateHMAC hk (secret v), GetEncryptedVault]"
  from promise_all_shape[of env ak es "w\<lparr>calls := calls w @ ?t5\<rparr>"]
  obtain rs t where
    a: "promise_all (map (decryptEntry env ak) es) (w\<lparr>calls := calls w @ ?t5\<rparr>)
          = (rs, (w\<lparr>calls := calls w @ ?t5\<rparr>)\<lparr>calls := calls (w\<lparr>calls := calls w @ ?t5\<rparr>) @ t\<rparr>)"
    and d: "list_all is_decrypt t"
    and c: "if list_all (entry_decrypts env ak) es
            then rs = Inr (map (plain_entry env ak) es) else isl rs"
    by meson
  from a have pa: "promise_all (map (decryptEntry env ak) es) (w\<lparr>calls := calls w @ ?t5\<rparr>)
          = (rs, w\<lparr>calls := calls w @ (?t5 @ t)\<rparr>)" by simp
  have "unlock_try env w =
          ((case rs of Inl e \<Rightarrow> Inl e | Inr ds \<Rightarrow> Inr (ak, ds)), w\<lparr>calls := calls w @ (?t5 @ t)\<rparr>)"
    using assms pa
    by (simp add: unlock_try_def await_def invoke_def return_io_def split: sum.splits)
  with d c show ?thesis by blast
qed

text \<open>The run of the \<open>try\<close> block when the computed tag differs from the expected one.\<close>

lemma unlock_try_mismatch:
  assumes "getEncryptionSalt env (server w) = Inr r"
    and "encryptionSalt r = Some salt" and "salt \<noteq> []"
    and "keyDerivationMethod r = Some meth" and "meth \<noteq> []"
    and "verification r = Some v"
    and "base64ToBuffer env salt = Inr buf"
    and "deriveKey env (masterPassword w) buf meth = Inr (ak, hk)"
    and "createHMAC env hk (secret v) = Inr tag" and "tag \<noteq> hmac v"
  shows "unlock_try env w =
           (Inl (Error ''Master password verification failed.''),
            w\<lparr>calls := calls w @
                [GetEncryptionSalt, Base64ToBuffer salt, DeriveKey (masterPassword w) buf meth,
                 CreateHMAC hk (secret v)]\<rparr>)"
  using assms by (simp add: unlock_try_def await_def invoke_def throw_def)

lemma decrypt_is_unlock_call: "list_all is_decrypt t \<Longrightarrow> list_all is_unlock_call t"
proof (induction t)
  case Nil
  show ?case by simp
next
  case (Cons c t)
  then show ?case by (cases c) simp_all
qed

text \<open>Every run of the \<open>try\<close> block, by the first sub-step that fails.\<close>

lemma unlock_try_shape:
  "\<exists>r t. unlock_try env w = (r, w\<lparr>calls := calls w @ t\<rparr>) \<and> list_all is_unlock_call t \<and>
     (case first_failure env (masterPassword w) (server w) of
        Some s \<Rightarrow> isl r \<and> (s \<noteq> FieldDecryption \<longrightarrow> list_all (\<lambda>c. \<not> is_decrypt c) t)
      | None \<Rightarrow> (\<exists>k es. r = Inr (k, map (plain_entry env k) es) \<and>
                  getEncryptedVault env (server w) = Inr es \<and>
                  list_all (entry_decrypts env k) es \<and> GetEncryptedVault \<in> set t))"
proof (cases "getEncryptionSalt env (server w)")
  case (Inl e)
  then have "unlock_try env w = (Inl e, w\<lparr>calls := calls w @ [GetEncryptionSalt]\<rparr>)"
    by (simp add: unlock_try_def await_def invoke_def)
  moreover have "first_failure env (masterPassword w) (server w) = Some FetchParameters"
    using Inl by (simp add: first_failure_def)
  ultimately show ?thesis by (intro exI[of _ "Inl e"] exI[of _ "[GetEncryptionSalt]"]) simp
next
  case r: (Inr r)
  let ?missing = "Error ''Missing required encryption data from server.''"
  show ?thesis
  proof (cases "\<exists>salt meth v. encryptionSalt r = Some salt \<and> keyDerivationMethod r = Some meth \<and>
                  verification r = Some v \<and> salt \<noteq> [] \<and> meth \<noteq> []")
    case False
    then have "unlock_try env w = (Inl ?missing, w\<lparr>calls := calls w @ [GetEncryptionSalt]\<rparr>)"
      using r by (auto simp: unlock_try_def await_def invoke_def throw_def split: option.splits)
    moreover have "first_failure env (masterPassword w) (server w) = Some MissingParameters"
      using r False by (auto simp: first_failure_def split: option.splits)
    ultimately show ?thesis by (intro exI[of _ "Inl ?missing"] exI[of _ "[GetEncryptionSalt]"]) simp
  next
    case True
    then obtain salt meth v where p: "encryptionSalt r = Some salt" "keyDerivationMethod r = Some meth"
      "verification r = Some v" "salt \<noteq> []" "meth \<noteq> []" by blast
    show ?thesis
    proof (cases "base64ToBuffer env salt")
      case (Inl e)
      then have "unlock_try env w = (Inl e, w\<lparr>calls := calls w @ [GetEncryptionSalt, Base64ToBuffer salt]\<rparr>)"
        using r p by (simp add: unlock_try_def await_def invoke_def)
      moreover have "first_failure env (masterPassword w) (server w) = Some SaltDecoding"
        using r p Inl by (simp add: first_failure_def)
      ultimately show ?thesis
        by (intro exI[of _ "Inl e"] exI[of _ "[GetEncryptionSalt, Base64ToBuffer salt]"]) simp
    next
      case buf: (Inr buf)
      let ?t3 = "[GetEncryptionSalt, Base64ToBuffer salt, DeriveKey (masterPassword w) buf meth]"
      show ?thesis
      proof (cases "deriveKey env (masterPassword w) buf meth")
        case (Inl e)
        then have "unlock_try env w = (Inl e, w\<lparr>calls := calls w @ ?t3\<rparr>)"
          using r p buf by (simp add: unlock_try_def await_def invoke_def)
        moreover have "first_failure env (masterPassword w) (server w) = Some KeyDerivation"
          using r p buf Inl by (simp add: first_failure_def)
        ultimately show ?thesis by (intro exI[of _ "Inl e"] exI[of _ ?t3]) simp
      next
        case (Inr keys)
        then obtain ak hk where keys: "deriveKey env (masterPassword w) buf meth = Inr (ak, hk)"
          by (cases keys) simp
        let ?t4 = "?t3 @ [CreateHMAC hk (secret v)]"
        show ?thesis
        proof (cases "createHMAC env hk (secret v)")
          case (Inl e)
          then have "unlock_try env w = (Inl e, w\<lparr>calls := calls w @ ?t4\<rparr>)"
            using r p buf keys by (simp add: unlock_try_def await_def invoke_def)
          moreover have "first_failure env (masterPassword w) (server w) = Some TagComputation"
            using r p buf keys Inl by (simp add: first_failure_def)
          ultimately show ?thesis by (intro exI[of _ "Inl e"] exI[of _ ?t4]) simp
        next
          case tag: (Inr tag)
          show ?thesis
          proof (cases "tag = hmac v")
            case False
            let ?e = "Error ''Master password verification failed.''"
            have "unlock_try env w = (Inl ?e, w\<lparr>calls := calls w @ ?t4\<rparr>)"
              using unlock_try_mismatch[OF r p(1,4,2,5,3) buf keys tag False] by simp
            moreover have "first_failure env (masterPassword w) (server w) = Some Verification"
              using r p buf keys tag False by (simp add: first_failure_def)
            ultimately show ?thesis by (intro exI[of _ "Inl ?e"] exI[of _ ?t4]) simp
          next
            case ok: True
            let ?t5 = "?t4 @ [GetEncryptedVault]"
            show ?thesis
            proof (cases "getEncryptedVault env (server w)")
              case (Inl e)
              then have "unlock_try env w = (Inl e, w\<lparr>calls := calls w @ ?t5\<rparr>)"
                using r p buf keys tag ok by (simp add: unlock_try_def await_def invoke_def)
              moreover have "first_failure env (masterPassword w) (server w) = Some StorageFetch"
                using r p buf keys tag ok Inl by (simp add: first_failure_def)
              ultimately show ?thesis by (intro exI[of _ "Inl e"] exI[of _ ?t5]) simp
            next
              case es: (Inr es)
              from tag ok have tag': "createHMAC env hk (secret v) = Inr (hmac v)" by simp
              from unlock_try_verified[OF r p(1,4,2,5,3) buf keys tag' es]
              obtain rs t where
                u: "unlock_try env w =
                      ((case rs of Inl e \<Rightarrow> Inl e | Inr ds \<Rightarrow> Inr (ak, ds)),
                       w\<lparr>calls := calls w @ (?t5 @ t)\<rparr>)"
                and rs: "if list_all (entry_decrypts env ak) es
                         then rs = Inr (map (plain_entry env ak) es) else isl rs"
                and dt: "list_all is_decrypt t"
                by auto
              from dt have ut: "list_all is_unlock_call t" by (rule decrypt_is_unlock_call)
              show ?thesis
              proof (cases "list_all (entry_decrypts env ak) es")
                case True
                then have "first_failure env (masterPassword w) (server w) = None"
                  using r p buf keys tag ok es by (simp add: first_failure_def)
                moreover have "(case rs of Inl e \<Rightarrow> Inl e | Inr ds \<Rightarrow> Inr (ak, ds))
                    = Inr (ak, map (plain_entry env ak) es)"
                  using rs True by simp
                ultimately show ?thesis using u es True ut
                  by (intro exI[of _ "Inr (ak, map (plain_entry env ak) es)"] exI[of _ "?t5 @ t"]) simp
              next
                case False
                then have "first_failure env (masterPassword w) (server w) = Some FieldDecryption"
                  using r p buf keys tag ok es by (simp add: first_failure_def)
                moreover obtain e where "rs = Inl e"
                  using rs False by (cases rs) auto
                ultimately show ?thesis using u ut
                  by (intro exI[of _ "Inl e"] exI[of _ "?t5 @ t"]) simp
              qed
            qed
          qed
        qed
      qed
    qed
  qed
qed

subsection \<open>What handleUnlock leaves behind\<close>

lemma handleUnlock_failure:
  assumes "first_failure env (masterPassword w) (server w) = Some s"
  shows "\<exists>e t. handleUnlock env w =
            w\<lparr>error := unlock_message, isUnlocking := False,
              console := console w @ [ConsoleError [] e], calls := calls w @ t\<rparr> \<and>
          list_all is_unlock_call t \<and>
          (s \<noteq> FieldDecryption \<longrightarrow> list_all (\<lambda>c. \<not> is_decrypt c) t)"
proof -
  let ?w1 = "w\<lparr>error := [], isUnlocking := True\<rparr>"
  from unlock_try_shape[of env ?w1] assms
  obtain r t where u: "unlock_try env ?w1 = (r, ?w1\<lparr>calls := calls ?w1 @ t\<rparr>)"
    and l: "isl r" and d: "s \<noteq> FieldDecryption \<longrightarrow> list_all (\<lambda>c. \<not> is_decrypt c) t"
    and c: "list_all is_unlock_call t"
    by auto
  from l obtain e where e: "r = Inl e" by (cases r) auto
  have "handleUnlock env w =
          w\<lparr>error := unlock_message, isUnlocking := False,
            console := console w @ [ConsoleError [] e], calls := calls w @ t\<rparr>"
    by (simp add: handleUnlock_def u e)
  with d c show ?thesis by blast
qed

lemma handleUnlock_success:
  assumes "first_failure env (masterPassword w) (server w) = None"
  shows "\<exists>k es t. handleUnlock env w =
            w\<lparr>error := [], isUnlocking := False, aesKey := Some k,
              credentials := map (plain_entry env k) es, vaultUnlocked := True,
              calls := calls w @ t\<rparr> \<and>
          getEncryptedVault env (server w) = Inr es \<and> list_all (entry_decrypts env k) es \<and>
          list_all is_unlock_call t \<and> GetEncryptedVault \<in> set t"
proof -
  let ?w1 = "w\<lparr>error := [], isUnlocking := True\<rparr>"
  from unlock_try_shape[of env ?w1] assms
  obtain t k es where u: "unlock_try env ?w1 = (Inr (k, map (plain_entry env k) es), ?w1\<lparr>calls := calls ?w1 @ t\<rparr>)"
    and es: "getEncryptedVault env (server w) = Inr es" "list_all (entry_decrypts env k) es"
      "list_all is_unlock_call t" "GetEncryptedVault \<in> set t"
    by auto
  have "handleUnlock env w =
          w\<lparr>error := [], isUnlocking := False, aesKey := Some k,
            credentials := map (plain_entry env k) es, vaultUnlocked := True,
            calls := calls w @ t\<rparr>"
    by (simp add: handleUnlock_def u)
  with es show ?thesis by blast
qed

text \<open>The successful run, with the key and the entries named.\<close>

lemma handleUnlock_verified:
  assumes "getEncryptionSalt env (server w) = Inr r"
    and "encryptionSalt r = Some salt" and "salt \<noteq> []"
    and "keyDerivationMethod r = Some meth" and "meth \<noteq> []"
    and "verification r = Some v"
    and "base64ToBuffer env salt = Inr buf"
    and "deriveKey env (masterPassword w) buf meth = Inr (ak, hk)"
    and "createHMAC env hk (secret v) = Inr (hmac v)"
    and "getEncryptedVault env (server w) = Inr es"
    and "list_all (entry_decrypts env ak) es"
  shows "\<exists>t. handleUnlock env w =
            w\<lparr>error := [], isUnlocking := False, aesKey := Some ak,
              credentials := map (plain_entry env ak) es, vaultUnlocked := True,
              calls := calls w @ t\<rparr>"
proof -
  let ?w1 = "w\<lparr>error := [], isUnlocking := True\<rparr>"
  have "\<exists>rs t. unlock_try env ?w1 =
            ((case rs of Inl e \<Rightarrow> Inl e | Inr ds \<Rightarrow> Inr (ak, ds)),
             ?w1\<lparr>calls := calls ?w1 @
                 ([GetEncryptionSalt, Base64ToBuffer salt, DeriveKey (masterPassword ?w1) buf meth,
                   CreateHMAC hk (secret v), GetEncryptedVault] @ t)\<rparr>) \<and>
          list_all is_decrypt t \<and>
          (if list_all (entry_decrypts env ak) es
           then rs = Inr (map (plain_entry env ak) es) else isl rs)"
    by (rule unlock_try_verified[of env ?w1 r salt meth v buf ak hk es]) (use assms in simp_all)
  with assms(11) obtain t where
    u: "unlock_try env ?w1 = (Inr (ak, map (plain_entry env ak) es), ?w1\<lparr>calls := calls ?w1 @ t\<rparr>)"
    by auto
  have "handleUnlock env w =
          w\<lparr>error := [], isUnlocking := False, aesKey := Some ak,
            credentials := map (plain_entry env ak) es, vaultUnlocked := True,
            calls := calls w @ t\<rparr>"
    by (simp add: handleUnlock_def u)
  then show ?thesis by blast
qed

text \<open>A fetched entry that does not decrypt makes the unlock fail, whatever happened before.\<close>

lemma first_failure_bad_entry:
  assumes "getEncryptedVault env srv = Inr es" and "e \<in> set es"
    and "\<forall>k. \<not> entry_decrypts env k e"
  shows "first_failure env pw srv \<noteq> None"
proof -
  have "\<And>k. \<not> list_all (entry_decrypts env k) es"
    using assms(2,3) by (auto simp: list_all_iff)
  then show ?thesis
    using assms(1)
    by (auto simp: first_failure_def split: sum.splits option.splits if_splits)
qed

subsection \<open>The concrete environment, evaluated\<close>

lemma typed_fields:
  "masterPassword (typed pw srv) = pw" "server (typed pw srv) = srv"
  "\<not> vaultUnlocked (typed pw srv)" "aesKey (typed pw srv) = None" "credentials (typed pw srv) = []"
  "\<not> isUnlocking (typed pw srv)" "calls (typed pw srv) = []"
  by (simp_all add: typed_def step_def commit_def autoLockEffect_def initial_def)

lemma demo_entry_decrypts: "entry_decrypts demo_env (CryptoKey ''EpwS1'') demo_entry"
  by (simp add: entry_decrypts_def opens_def demo_env_def demo_decryptData_def demo_entry_def)

lemma foreign_entry_fails: "\<not> entry_decrypts demo_env (CryptoKey ''EpwS1'') foreign_entry"
  by (simp add: entry_decrypts_def opens_def demo_env_def demo_decryptData_def demo_entry_def foreign_entry_def)

lemma demo_first_failure:
  "first_failure demo_env ''pw'' es =
     (if list_all (entry_decrypts demo_env (CryptoKey ''EpwS1'')) es then None else Some FieldDecryption)"
  by (simp add: first_failure_def demo_env_def demo_deriveKey_def demo_createHMAC_def)

lemma demo_wrong_password: "first_failure demo_env ''bad'' es = Some Verification"
  by (simp add: first_failure_def demo_env_def demo_deriveKey_def demo_createHMAC_def)

lemma incomplete_first_failure: "first_failure incomplete_env pw es = Some MissingParameters"
  by (simp add: first_failure_def incomplete_env_def demo_env_def)

subsection \<open>The claims about the unlock flow and the guards\<close>

text \<open>
  Claim C10. Both mutation handlers guard on the key: when \<open>aesKey\<close> is \<open>null\<close>, the
  add-entry handler and the edit form's submit handler return at once. The whole state
  is the one they started in: no call has been recorded (nothing encrypted, no request
  to the backend), the backend is unchanged, and so is every cell of the component.
\<close>

theorem guard_on_missing_key:
  assumes "aesKey w = None"
  shows "handleAddEntry env w = w \<and> handleUpdateEntry env w = w \<and>
         new_calls w (handleAddEntry env w) = [] \<and> new_calls w (handleUpdateEntry env w) = [] \<and>
         server (handleAddEntry env w) = server w \<and> server (handleUpdateEntry env w) = server w"
proof -
  have a: "handleAddEntry env w = w"
    using assms by (simp add: handleAddEntry_def)
  have u: "handleUpdateEntry env w = w"
    using assms by (simp add: handleUpdateEntry_def)
  have "new_calls w w = []" by (simp add: new_calls_def)
  with a u show ?thesis by simp
qed

theorem guard_on_missing_key_witness:
  "aesKey (typed ''pw'' [demo_entry]) = None \<and>
   handleAddEntry demo_env (typed ''pw'' [demo_entry]) = typed ''pw'' [demo_entry] \<and>
   handleUpdateEntry demo_env (typed ''pw'' [demo_entry]) = typed ''pw'' [demo_entry] \<and>
   new_calls (typed ''pw'' [demo_entry]) (handleAddEntry demo_env (typed ''pw'' [demo_entry])) = []"
  using guard_on_missing_key[of "typed ''pw'' [demo_entry]" demo_env]
  by (simp add: typed_fields new_calls_def)

text \<open>
  Claim C3. The unlock flow is all-or-nothing. If any sub-step fails (the parameters
  cannot be fetched or are incomplete, the salt or the keys cannot be computed, the tag
  cannot be computed or does not match, the stored entries cannot be fetched, or one
  field of one entry does not decrypt), \<open>vaultUnlocked\<close>, \<open>aesKey\<close> and
  \<open>credentials\<close> are what they were before the attempt: a locked session stays locked,
  with no key and no entry. They are set only when no sub-step fails, and then every
  field of every fetched entry has decrypted and \<open>credentials\<close> is the plaintext view
  of all of them.
\<close>

theorem unlock_all_or_nothing:
  "(first_failure env (masterPassword w) (server w) \<noteq> None \<longrightarrow>
      vaultUnlocked (handleUnlock env w) = vaultUnlocked w \<and>
      aesKey (handleUnlock env w) = aesKey w \<and>
      credentials (handleUnlock env w) = credentials w) \<and>
   (first_failure env (masterPassword w) (server w) = None \<longrightarrow>
      (\<exists>k es. getEncryptedVault env (server w) = Inr es \<and>
              list_all (entry_decrypts env k) es \<and>
              vaultUnlocked (handleUnlock env w) \<and>
              aesKey (handleUnlock env w) = Some k \<and>
              credentials (handleUnlock env w) = map (plain_entry env k) es))"
proof (cases "first_failure env (masterPassword w) (server w)")
  case None
  from handleUnlock_success[OF None] obtain k es t where
    "handleUnlock env w =
       w\<lparr>error := [], isUnlocking := False, aesKey := Some k,
         credentials := map (plain_entry env k) es, vaultUnlocked := True, calls := calls w @ t\<rparr>"
    and "getEncryptedVault env (server w) = Inr es" "list_all (entry_decrypts env k) es"
    by blast
  with None show ?thesis by simp
next
  case (Some s)
  from handleUnlock_failure[OF Some] obtain e t where
    "handleUnlock env w =
       w\<lparr>error := unlock_message, isUnlocking := False,
         console := console w @ [ConsoleError [] e], calls := calls w @ t\<rparr>"
    by blast
  with Some show ?thesis by simp
qed

text \<open>
  Three failing attempts on a locked session (a sibling entry that does not decrypt,
  incomplete parameters, a wrong password) and a successful one.
\<close>

theorem unlock_all_or_nothing_witness:
  "first_failure demo_env ''pw'' [demo_entry, foreign_entry, demo_entry] = Some FieldDecryption \<and>
   \<not> vaultUnlocked (handleUnlock demo_env (typed ''pw'' [demo_entry, foreign_entry, demo_entry])) \<and>
   aesKey (handleUnlock demo_env (typed ''pw'' [demo_entry, foreign_entry, demo_entry])) = None \<and>
   credentials (handleUnlock demo_env (typed ''pw'' [demo_entry, foreign_entry, demo_entry])) = [] \<and>
   first_failure incomplete_env ''pw'' [demo_entry] = Some MissingParameters \<and>
   \<not> vaultUnlocked (handleUnlock incomplete_env (typed ''pw'' [demo_entry])) \<and>
   aesKey (handleUnlock incomplete_env (typed ''pw'' [demo_entry])) = None \<and>
   first_failure demo_env ''bad'' [demo_entry] = Some Verification \<and>
   \<not> vaultUnlocked (handleUnlock demo_env (typed ''bad'' [demo_entry])) \<and>
   aesKey (handleUnlock demo_env (typed ''bad'' [demo_entry])) = None \<and>
   first_failure demo_env ''pw'' [demo_entry] = None \<and>
   vaultUnlocked (handleUnlock demo_env (typed ''pw'' [demo_entry]))"
  using unlock_all_or_nothing[of demo_env "typed ''pw'' [demo_entry, foreign_entry, demo_entry]"]
    unlock_all_or_nothing[of incomplete_env "typed ''pw'' [demo_entry]"]
    unlock_all_or_nothing[of demo_env "typed ''bad'' [demo_entry]"]
    unlock_all_or_nothing[of demo_env "typed ''pw'' [demo_entry]"]
  by (auto simp add: typed_fields demo_first_failure demo_entry_decrypts foreign_entry_fails
      incomplete_first_failure demo_wrong_password)

text \<open>
  Claim C7. Whatever sub-step an unlock attempt fails at, the message put in \<open>error\<close>
  is the same: two failing attempts, in any two environments and states and failing at
  any two sub-steps, end with the same message, \<open>Incorrect master password or decryption
  failed.\<close>, and when they start in the same view they show the user the same text.
  (The exception itself goes to the console only.)
\<close>

theorem unlock_error_is_generic:
  "first_failure env (masterPassword w) (server w) = Some s \<Longrightarrow>
   first_failure env' (masterPassword w') (server w') = Some s' \<Longrightarrow>
   error (handleUnlock env w) = ''Incorrect master password or decryption failed.'' \<and>
   error (handleUnlock env' w') = error (handleUnlock env w) \<and>
   (vaultUnlocked w = vaultUnlocked w' \<longrightarrow>
      shownError (handleUnlock env w) = shownError (handleUnlock env' w'))"
proof -
  assume a: "first_failure env (masterPassword w) (server w) = Some s"
    and b: "first_failure env' (masterPassword w') (server w') = Some s'"
  from handleUnlock_failure[OF a]
  have 1: "error (handleUnlock env w) = unlock_message"
    "vaultUnlocked (handleUnlock env w) = vaultUnlocked w" by auto
  from handleUnlock_failure[OF b]
  have 2: "error (handleUnlock env' w') = unlock_message"
    "vaultUnlocked (handleUnlock env' w') = vaultUnlocked w'" by auto
  from 1 2 show ?thesis by (simp add: unlock_message_def shownError_def)
qed

text \<open>One attempt fails for incomplete parameters, the other for a field that does not decrypt.\<close>

theorem unlock_error_is_generic_witness:
  "first_failure incomplete_env (masterPassword (typed ''pw'' [demo_entry])) (server (typed ''pw'' [demo_entry]))
     = Some MissingParameters \<and>
   first_failure demo_env (masterPassword (typed ''pw'' [foreign_entry])) (server (typed ''pw'' [foreign_entry]))
     = Some FieldDecryption \<and>
   error (handleUnlock incomplete_env (typed ''pw'' [demo_entry]))
     = ''Incorrect master password or decryption failed.'' \<and>
   error (handleUnlock demo_env (typed ''pw'' [foreign_entry]))
     = error (handleUnlock incomplete_env (typed ''pw'' [demo_entry])) \<and>
   shownError (handleUnlock incomplete_env (typed ''pw'' [demo_entry]))
     = shownError (handleUnlock demo_env (typed ''pw'' [foreign_entry]))"
proof -
  have a: "first_failure incomplete_env (masterPassword (typed ''pw'' [demo_entry])) (server (typed ''pw'' [demo_entry]))
     = Some MissingParameters"
    by (simp add: typed_fields incomplete_first_failure)
  have b: "first_failure demo_env (masterPassword (typed ''pw'' [foreign_entry])) (server (typed ''pw'' [foreign_entry]))
     = Some FieldDecryption"
    by (simp add: typed_fields demo_first_failure foreign_entry_fails)
  from unlock_error_is_generic[OF a b] a b show ?thesis by (simp add: typed_fields)
qed

lemma new_calls_append: "calls w' = calls w @ t \<Longrightarrow> new_calls w w' = t"
  by (simp add: new_calls_def)

text \<open>An attempt that fails before the decryption of the fields has made no decrypt call.\<close>

lemma no_decrypt_before_verdict:
  assumes "first_failure env (masterPassword w) (server w) = Some s" and "s \<noteq> FieldDecryption"
  shows "filter is_decrypt (new_calls w (handleUnlock env w)) = []"
proof -
  from handleUnlock_failure[OF assms(1)] assms(2) obtain e t where
    h: "handleUnlock env w =
       w\<lparr>error := unlock_message, isUnlocking := False,
         console := console w @ [ConsoleError [] e], calls := calls w @ t\<rparr>"
    and d: "list_all (\<lambda>c. \<not> is_decrypt c) t"
    by blast
  have "new_calls w (handleUnlock env w) = t" by (rule new_calls_append) (simp add: h)
  with d show ?thesis by (simp add: filter_empty_conv list_all_iff)
qed

lemma demo_parameters:
  "getEncryptionSalt demo_env srv =
     Inr \<lparr>encryptionSalt = Some ''S1'', keyDerivationMethod = Some ''kdf-v1'',
          verification = Some \<lparr>secret = ''c'', hmac = ''ApwS1c''\<rparr>\<rparr>"
  "base64ToBuffer demo_env s = Inr s"
  "deriveKey demo_env pw ''S1'' ''kdf-v1'' = Inr (CryptoKey (''E'' @ pw @ ''S1''), CryptoKey (''A'' @ pw @ ''S1''))"
  "createHMAC demo_env (CryptoKey t) c = Inr (t @ c)"
  "getEncryptedVault demo_env srv = Inr srv"
  by (simp_all add: demo_env_def demo_deriveKey_def demo_createHMAC_def)

text \<open>
  Claim C1. Verification comes before decryption. In an unlock attempt in which the tag
  computed with the derived authentication key differs from the expected tag, the
  calls made are exactly the four up to the computation of the tag: no decrypt call (and
  no request for the stored entries) is made, and the session is as it was.
\<close>

theorem verification_gates_decryption:
  assumes "getEncryptionSalt env (server w) = Inr r"
    and "encryptionSalt r = Some salt" and "salt \<noteq> []"
    and "keyDerivationMethod r = Some meth" and "meth \<noteq> []"
    and "verification r = Some v"
    and "base64ToBuffer env salt = Inr buf"
    and "deriveKey env (masterPassword w) buf meth = Inr (ak, hk)"
    and "createHMAC env hk (secret v) = Inr tag"
    and "tag \<noteq> hmac v"
  shows "new_calls w (handleUnlock env w) =
           [GetEncryptionSalt, Base64ToBuffer salt, DeriveKey (masterPassword w) buf meth,
            CreateHMAC hk (secret v)] \<and>
         filter is_decrypt (new_calls w (handleUnlock env w)) = [] \<and>
         vaultUnlocked (handleUnlock env w) = vaultUnlocked w \<and>
         aesKey (handleUnlock env w) = aesKey w \<and>
         credentials (handleUnlock env w) = credentials w"
proof -
  let ?w1 = "w\<lparr>error := [], isUnlocking := True\<rparr>"
  have "unlock_try env ?w1 =
          (Inl (Error ''Master password verification failed.''),
           ?w1\<lparr>calls := calls ?w1 @
                [GetEncryptionSalt, Base64ToBuffer salt, DeriveKey (masterPassword ?w1) buf meth,
                 CreateHMAC hk (secret v)]\<rparr>)"
    by (rule unlock_try_mismatch[of env ?w1 r salt meth v buf ak hk tag]) (use assms in simp_all)
  then have h: "handleUnlock env w =
      w\<lparr>error := unlock_message, isUnlocking := False,
        console := console w @ [ConsoleError [] (Error ''Master password verification failed.'')],
        calls := calls w @ [GetEncryptionSalt, Base64ToBuffer salt,
                            DeriveKey (masterPassword w) buf meth, CreateHMAC hk (secret v)]\<rparr>"
    by (simp add: handleUnlock_def)
  have "new_calls w (handleUnlock env w) =
          [GetEncryptionSalt, Base64ToBuffer salt, DeriveKey (masterPassword w) buf meth,
           CreateHMAC hk (secret v)]"
    by (rule new_calls_append) (simp add: h)
  then show ?thesis by (simp add: h)
qed

theorem verification_gates_decryption_witness:
  "createHMAC demo_env (CryptoKey ''AbadS1'') ''c'' = Inr ''AbadS1c'' \<and>
   ''AbadS1c'' \<noteq> ''ApwS1c'' \<and>
   new_calls (typed ''bad'' [demo_entry]) (handleUnlock demo_env (typed ''bad'' [demo_entry])) =
     [GetEncryptionSalt, Base64ToBuffer ''S1'', DeriveKey ''bad'' ''S1'' ''kdf-v1'',
      CreateHMAC (CryptoKey ''AbadS1'') ''c''] \<and>
   filter is_decrypt
     (new_calls (typed ''bad'' [demo_entry]) (handleUnlock demo_env (typed ''bad'' [demo_entry]))) = [] \<and>
   \<not> vaultUnlocked (handleUnlock demo_env (typed ''bad'' [demo_entry]))"
  using verification_gates_decryption[of demo_env "typed ''bad'' [demo_entry]"
      "\<lparr>encryptionSalt = Some ''S1'', keyDerivationMethod = Some ''kdf-v1'',
        verification = Some \<lparr>secret = ''c'', hmac = ''ApwS1c''\<rparr>\<rparr>"
      "''S1''" "''kdf-v1''" "\<lparr>secret = ''c'', hmac = ''ApwS1c''\<rparr>" "''S1''"
      "CryptoKey ''EbadS1''" "CryptoKey ''AbadS1''" "''AbadS1c''"]
  by (simp add: demo_parameters typed_fields)

text \<open>
  Claim C9. The website, username and password envelopes are required. If the fetched
  list holds an entry in which one of the three is absent, the unlock attempt fails: the
  session is as it was (locked, if it was locked) and the error message is set. An
  absent notes envelope does not abort the unlock: when verification passes and in
  every fetched entry the three envelopes are present and decrypt, and the notes
  envelope decrypts if present, the vault is unlocked with one decrypted entry per
  fetched entry.
\<close>

theorem required_envelopes:
  "(getEncryptedVault env (server w) = Inr es \<and> e \<in> set es \<and>
      (website e = None \<or> username e = None \<or> password e = None) \<longrightarrow>
      vaultUnlocked (handleUnlock env w) = vaultUnlocked w \<and>
      aesKey (handleUnlock env w) = aesKey w \<and>
      credentials (handleUnlock env w) = credentials w \<and>
      error (handleUnlock env w) = ''Incorrect master password or decryption failed.'') \<and>
   (getEncryptionSalt env (server w) = Inr r \<and>
      encryptionSalt r = Some salt \<and> salt \<noteq> [] \<and>
      keyDerivationMethod r = Some meth \<and> meth \<noteq> [] \<and>
      verification r = Some v \<and>
      base64ToBuffer env salt = Inr buf \<and>
      deriveKey env (masterPassword w) buf meth = Inr (ak, hk) \<and>
      createHMAC env hk (secret v) = Inr (hmac v) \<and>
      getEncryptedVault env (server w) = Inr es \<and>
      (\<forall>e \<in> set es.
         (\<exists>a. website e = Some a \<and> opens env ak a) \<and>
         (\<exists>b. username e = Some b \<and> opens env ak b) \<and>
         (\<exists>c. password e = Some c \<and> opens env ak c) \<and>
         (\<forall>n. notes' e = Some n \<longrightarrow> opens env ak n)) \<longrightarrow>
      vaultUnlocked (handleUnlock env w) \<and>
      aesKey (handleUnlock env w) = Some ak \<and>
      map entry (credentials (handleUnlock env w)) = es)"
proof (intro conjI impI)
  assume a: "getEncryptedVault env (server w) = Inr es \<and> e \<in> set es \<and>
      (website e = None \<or> username e = None \<or> password e = None)"
  then have "\<forall>k. \<not> entry_decrypts env k e"
    by (auto simp: entry_decrypts_def)
  with a have "first_failure env (masterPassword w) (server w) \<noteq> None"
    using first_failure_bad_entry[of env "server w" es e "masterPassword w"] by blast
  then obtain s where "first_failure env (masterPassword w) (server w) = Some s" by blast
  from handleUnlock_failure[OF this] obtain err t where
    h: "handleUnlock env w =
       w\<lparr>error := unlock_message, isUnlocking := False,
         console := console w @ [ConsoleError [] err], calls := calls w @ t\<rparr>"
    by blast
  show "vaultUnlocked (handleUnlock env w) = vaultUnlocked w" by (simp add: h)
  show "aesKey (handleUnlock env w) = aesKey w" by (simp add: h)
  show "credentials (handleUnlock env w) = credentials w" by (simp add: h)
  show "error (handleUnlock env w) = ''Incorrect master password or decryption failed.''"
    by (simp add: h unlock_message_def)
next
  assume b: "getEncryptionSalt env (server w) = Inr r \<and>
      encryptionSalt r = Some salt \<and> salt \<noteq> [] \<and>
      keyDerivationMethod r = Some meth \<and> meth \<noteq> [] \<and>
      verification r = Some v \<and>
      base64ToBuffer env salt = Inr buf \<and>
      deriveKey env (masterPassword w) buf meth = Inr (ak, hk) \<and>
      createHMAC env hk (secret v) = Inr (hmac v) \<and>
      getEncryptedVault env (server w) = Inr es \<and>
      (\<forall>e \<in> set es.
         (\<exists>a. website e = Some a \<and> opens env ak a) \<and>
         (\<exists>b. username e = Some b \<and> opens env ak b) \<and>
         (\<exists>c. password e = Some c \<and> opens env ak c) \<and>
         (\<forall>n. notes' e = Some n \<longrightarrow> opens env ak n))"
  then have "\<forall>e \<in> set es. entry_decrypts env ak e"
    by (auto simp: entry_decrypts_def split: option.splits)
  then have all: "list_all (entry_decrypts env ak) es" by (simp add: list_all_iff)
  from b have "\<exists>t. handleUnlock env w =
            w\<lparr>error := [], isUnlocking := False, aesKey := Some ak,
              credentials := map (plain_entry env ak) es, vaultUnlocked := True,
              calls := calls w @ t\<rparr>"
    by (intro handleUnlock_verified[of env w r salt meth v buf ak hk es] all) simp_all
  then obtain t where h: "handleUnlock env w =
            w\<lparr>error := [], isUnlocking := False, aesKey := Some ak,
              credentials := map (plain_entry env ak) es, vaultUnlocked := True,
              calls := calls w @ t\<rparr>" by blast
  show "vaultUnlocked (handleUnlock env w)" by (simp add: h)
  show "aesKey (handleUnlock env w) = Some ak" by (simp add: h)
  have "map entry (map (plain_entry env ak) es) = es"
    by (induction es) (simp_all add: plain_entry_def)
  then show "map entry (credentials (handleUnlock env w)) = es" by (simp add: h)
qed

lemma demo_opens: "opens demo_env (CryptoKey t) v \<longleftrightarrow> take (length t) (cipherText v) = t"
  by (simp add: opens_def demo_env_def demo_decryptData_def)

theorem required_envelopes_witness:
  "no_username_entry \<in> set [demo_entry, no_username_entry] \<and> username no_username_entry = None \<and>
   \<not> vaultUnlocked (handleUnlock demo_env (typed ''pw'' [demo_entry, no_username_entry])) \<and>
   error (handleUnlock demo_env (typed ''pw'' [demo_entry, no_username_entry]))
     = ''Incorrect master password or decryption failed.'' \<and>
   notes' demo_entry = None \<and>
   vaultUnlocked (handleUnlock demo_env (typed ''pw'' [demo_entry])) \<and>
   map entry (credentials (handleUnlock demo_env (typed ''pw'' [demo_entry]))) = [demo_entry]"
  using required_envelopes[of demo_env "typed ''pw'' [demo_entry, no_username_entry]"
      "[demo_entry, no_username_entry]" no_username_entry]
    required_envelopes[of demo_env "typed ''pw'' [demo_entry]" "[demo_entry]" _
      "\<lparr>encryptionSalt = Some ''S1'', keyDerivationMethod = Some ''kdf-v1'',
        verification = Some \<lparr>secret = ''c'', hmac = ''ApwS1c''\<rparr>\<rparr>"
      "''S1''" "''kdf-v1''" "\<lparr>secret = ''c'', hmac = ''ApwS1c''\<rparr>" "''S1''"
      "CryptoKey ''EpwS1''" "CryptoKey ''ApwS1''"]
  by (simp add: demo_parameters typed_fields demo_opens no_username_entry_def demo_entry_def)

subsection \<open>The mutation handlers\<close>

lemma io_only_refl: "io_only w w"
  by (simp add: io_only_def same_timers_def)

lemma io_only_trans: "io_only w w' \<Longrightarrow> io_only w' w'' \<Longrightarrow> io_only w w''"
  by (simp add: io_only_def same_timers_def)

lemma encryptFields_io: "io_only w (snd (encryptFields env k a b c d w))"
  by (simp add: encryptFields_def await_def encryptField_def return_io_def io_only_def
      same_timers_def split: sum.splits)

lemma encryptFields_calls:
  "\<exists>t. calls (snd (encryptFields env k a b c d w)) = calls w @ t \<and> list_all is_encrypt t"
  by (simp add: encryptFields_def await_def encryptField_def return_io_def split: sum.splits)

lemma encryptFields_notes:
  "fst (encryptFields env k a b c d w) = Inr p \<Longrightarrow> (payload_notes p = None) = (d = [])"
  by (auto simp: encryptFields_def await_def encryptField_def return_io_def split: sum.splits if_splits)

lemma mutate_io: "io_only w (snd (mutate c request w))"
  by (simp add: mutate_def io_only_def same_timers_def split: sum.splits)

lemma mutate_calls: "calls (snd (mutate c request w)) = calls w @ [c]"
  by (simp add: mutate_def split: sum.splits)

lemma add_try_io: "io_only w (snd (add_try env k ne w))"
proof -
  obtain r w1 where e: "encryptFields env k (new_website ne) (new_username ne) (new_password ne)
      (new_notes ne) w = (r, w1)" by force
  from encryptFields_io[of w env k "new_website ne" "new_username ne" "new_password ne" "new_notes ne"] e
  have 1: "io_only w w1" by simp
  show ?thesis
  proof (cases r)
    case (Inl err)
    with e 1 show ?thesis by (simp add: add_try_def await_def)
  next
    case (Inr p)
    with e have "snd (add_try env k ne w) = snd (mutate (AddEntry p) (addEntry env p) w1)"
      by (simp add: add_try_def await_def)
    with 1 mutate_io[of w1 "AddEntry p" "addEntry env p"] show ?thesis
      by (simp add: io_only_trans)
  qed
qed

lemma add_try_calls:
  "\<exists>t. calls (snd (add_try env k ne w)) = calls w @ t \<and>
       list_all (\<lambda>c. \<not> is_unlock_call c) t \<and>
       (\<forall>p. AddEntry p \<in> set t \<longrightarrow> (payload_notes p = None) = (new_notes ne = []))"
proof -
  obtain r w1 where e: "encryptFields env k (new_website ne) (new_username ne) (new_password ne)
      (new_notes ne) w = (r, w1)" by force
  from encryptFields_calls[of env k "new_website ne" "new_username ne" "new_password ne" "new_notes ne" w] e
  obtain t where t: "calls w1 = calls w @ t" "list_all is_encrypt t" by auto
  from t(2) have nu: "list_all (\<lambda>c. \<not> is_unlock_call c) t"
    by (induction t) (auto elim: is_encrypt.elims)
  from t(2) have na: "\<And>p. AddEntry p \<notin> set t"
    by (auto simp: list_all_iff)
  show ?thesis
  proof (cases r)
    case (Inl err)
    with e have "calls (snd (add_try env k ne w)) = calls w @ t"
      by (simp add: add_try_def await_def t)
    with nu na show ?thesis by blast
  next
    case (Inr p)
    with e have n: "(payload_notes p = None) = (new_notes ne = [])"
      using encryptFields_notes[of env k "new_website ne" "new_username ne" "new_password ne"
          "new_notes ne" w p] by simp
    from Inr e have "calls (snd (add_try env k ne w)) = calls w @ (t @ [AddEntry p])"
      by (simp add: add_try_def await_def mutate_calls t)
    moreover have "list_all (\<lambda>c. \<not> is_unlock_call c) (t @ [AddEntry p])" using nu by simp
    moreover have "\<forall>q. AddEntry q \<in> set (t @ [AddEntry p]) \<longrightarrow> (payload_notes q = None) = (new_notes ne = [])"
      using na n by auto
    ultimately show ?thesis by blast
  qed
qed

lemma update_try_io: "io_only w (snd (update_try env k ee w))"
proof -
  obtain r w1 where e: "encryptFields env k (decryptedWebsite ee) (decryptedUsername ee)
      (decryptedPassword ee) (decryptedNotes ee) w = (r, w1)" by force
  from encryptFields_io[of w env k "decryptedWebsite ee" "decryptedUsername ee" "decryptedPassword ee"
      "decryptedNotes ee"] e
  have 1: "io_only w w1" by simp
  show ?thesis
  proof (cases r)
    case (Inl err)
    with e 1 show ?thesis by (simp add: update_try_def await_def)
  next
    case (Inr p)
    with e have "snd (update_try env k ee w) =
        snd (mutate (UpdateEntry (entry_id (entry ee)) p) (updateEntry env (entry_id (entry ee)) p) w1)"
      by (simp add: update_try_def await_def)
    with 1 mutate_io[of w1] show ?thesis
      by (simp add: io_only_trans)
  qed
qed

text \<open>What \<open>handleUnlock\<close> does not touch.\<close>

lemma handleUnlock_frame:
  "same_timers w (handleUnlock env w) \<and>
   masterPassword (handleUnlock env w) = masterPassword w \<and>
   server (handleUnlock env w) = server w \<and>
   editingEntry (handleUnlock env w) = editingEntry w \<and>
   showAddForm (handleUnlock env w) = showAddForm w \<and>
   newEntry (handleUnlock env w) = newEntry w \<and>
   isAdding (handleUnlock env w) = isAdding w \<and>
   isUpdating (handleUnlock env w) = isUpdating w \<and>
   (vaultUnlocked w \<longrightarrow> vaultUnlocked (handleUnlock env w)) \<and>
   (\<exists>t. calls (handleUnlock env w) = calls w @ t \<and> list_all is_unlock_call t)"
proof (cases "first_failure env (masterPassword w) (server w)")
  case None
  from handleUnlock_success[OF None] obtain k es t where
    "handleUnlock env w =
       w\<lparr>error := [], isUnlocking := False, aesKey := Some k,
         credentials := map (plain_entry env k) es, vaultUnlocked := True, calls := calls w @ t\<rparr>"
    and "list_all is_unlock_call t"
    by blast
  then show ?thesis by (simp add: same_timers_def)
next
  case (Some s)
  from handleUnlock_failure[OF Some] obtain e t where
    "handleUnlock env w =
       w\<lparr>error := unlock_message, isUnlocking := False,
         console := console w @ [ConsoleError [] e], calls := calls w @ t\<rparr>"
    and "list_all is_unlock_call t"
    by blast
  then show ?thesis by (simp add: same_timers_def)
qed

lemma handleAddEntry_frame:
  "same_timers w (handleAddEntry env w) \<and>
   masterPassword (handleAddEntry env w) = masterPassword w \<and>
   (vaultUnlocked w \<longrightarrow> vaultUnlocked (handleAddEntry env w))"
proof (cases "aesKey w")
  case None
  then show ?thesis by (simp add: handleAddEntry_def same_timers_def)
next
  case (Some k)
  let ?w1 = "w\<lparr>isAdding := True, error := []\<rparr>"
  obtain r w2 where a: "add_try env k (newEntry w) ?w1 = (r, w2)" by force
  from add_try_io[of ?w1 env k "newEntry w"] a have io: "io_only ?w1 w2" by simp
  show ?thesis
  proof (cases r)
    case (Inl e)
    with Some a io show ?thesis
      by (simp add: handleAddEntry_def io_only_def same_timers_def)
  next
    case (Inr u)
    let ?w3 = "w2\<lparr>showAddForm := False, newEntry := emptyEntry\<rparr>"
    from Inr Some a have h: "handleAddEntry env w = (handleUnlock env ?w3)\<lparr>isAdding := False\<rparr>"
      by (simp add: handleAddEntry_def)
    from handleUnlock_frame[of ?w3 env] io show ?thesis
      by (simp add: h io_only_def same_timers_def)
  qed
qed

lemma handleUpdateEntry_frame:
  "same_timers w (handleUpdateEntry env w) \<and>
   masterPassword (handleUpdateEntry env w) = masterPassword w \<and>
   (vaultUnlocked w \<longrightarrow> vaultUnlocked (handleUpdateEntry env w))"
proof (cases "aesKey w")
  case None
  then show ?thesis by (simp add: handleUpdateEntry_def same_timers_def)
next
  case k: (Some k)
  show ?thesis
  proof (cases "editingEntry w")
    case None
    with k show ?thesis by (simp add: handleUpdateEntry_def same_timers_def)
  next
    case (Some ee)
    let ?w1 = "w\<lparr>isUpdating := True, error := []\<rparr>"
    obtain r w2 where a: "update_try env k ee ?w1 = (r, w2)" by force
    from update_try_io[of ?w1 env k ee] a have io: "io_only ?w1 w2" by simp
    show ?thesis
    proof (cases r)
      case (Inl e)
      with k Some a io show ?thesis
        by (simp add: handleUpdateEntry_def io_only_def same_timers_def)
    next
      case (Inr u)
      let ?w3 = "w2\<lparr>editingEntry := None\<rparr>"
      from Inr k Some a have h: "handleUpdateEntry env w = (handleUnlock env ?w3)\<lparr>isUpdating := False\<rparr>"
        by (simp add: handleUpdateEntry_def)
      from handleUnlock_frame[of ?w3 env] io show ?thesis
        by (simp add: h io_only_def same_timers_def)
    qed
  qed
qed

lemma handleDelete_frame:
  "same_timers w (handleDelete env i c w) \<and>
   masterPassword (handleDelete env i c w) = masterPassword w \<and>
   (vaultUnlocked w \<longrightarrow> vaultUnlocked (handleDelete env i c w))"
proof (cases c)
  case False
  then show ?thesis by (simp add: handleDelete_def same_timers_def)
next
  case True
  obtain r w2 where a: "mutate (DeleteEntry i) (deleteEntry env i) w = (r, w2)" by force
  from mutate_io[of w "DeleteEntry i" "deleteEntry env i"] a have io: "io_only w w2" by simp
  show ?thesis
  proof (cases r)
    case (Inl e)
    with True a io show ?thesis
      by (simp add: handleDelete_def io_only_def same_timers_def)
  next
    case (Inr u)
    with True a have h: "handleDelete env i c w = handleUnlock env w2"
      by (simp add: handleDelete_def)
    from handleUnlock_frame[of w2 env] io show ?thesis
      by (simp add: h io_only_def same_timers_def)
  qed
qed

lemma resetAutoLockTimer_frame:
  "vaultUnlocked (resetAutoLockTimer w) = vaultUnlocked w \<and>
   masterPassword (resetAutoLockTimer w) = masterPassword w \<and>
   listening (resetAutoLockTimer w) = listening w \<and>
   now (resetAutoLockTimer w) = now w"
  by (simp add: resetAutoLockTimer_def window_setTimeout_def clearTimeout_def truthy_def
      split: option.splits)

text \<open>Every handler but the activity listener leaves the timers alone; none of them locks the vault.\<close>

lemma handler_frame:
  "(ev \<noteq> Activity \<longrightarrow> same_timers w (handler env ev w)) \<and>
   (vaultUnlocked w \<longrightarrow> vaultUnlocked (handler env ev w)) \<and>
   ((\<forall>v. ev \<noteq> ChangeMasterPassword v) \<longrightarrow> masterPassword (handler env ev w) = masterPassword w)"
proof (cases ev)
  case ClickUnlock
  with handleUnlock_frame[of w env] show ?thesis by (simp add: same_timers_def)
next
  case SubmitAdd
  with handleAddEntry_frame[of w env] show ?thesis by (simp add: same_timers_def)
next
  case SubmitEdit
  with handleUpdateEntry_frame[of w env] show ?thesis by (simp add: same_timers_def)
next
  case (ClickDelete i c)
  with handleDelete_frame[of w env "entry_id (entry (credentials w ! i))" c] show ?thesis
    by (simp add: same_timers_def)
next
  case Activity
  with resetAutoLockTimer_frame[of w] show ?thesis by (simp add: handleActivity_def)
qed (simp_all add: same_timers_def split: option.splits)

subsection \<open>The inactivity timer\<close>

lemma filter_other_handle: "list_all (\<lambda>p. fst p = h) ps \<Longrightarrow> filter (\<lambda>p. fst p \<noteq> h) ps = []"
  by (induction ps) auto

lemma lockVault_session:
  "\<not> vaultUnlocked (lockVault w) \<and> aesKey (lockVault w) = None \<and> credentials (lockVault w) = [] \<and>
   editingEntry (lockVault w) = None \<and> \<not> showAddForm (lockVault w) \<and>
   masterPassword (lockVault w) = [] \<and> nextHandle (lockVault w) = nextHandle w \<and>
   listening (lockVault w) = listening w \<and> now (lockVault w) = now w"
  by (simp add: lockVault_def Let_def clearTimeout_def truthy_def split: option.splits)

lemma lockVault_timer:
  assumes "timer_inv w"
  shows "timeoutRef (lockVault w) = None \<and> pending (lockVault w) = []"
proof (cases "timeoutRef w")
  case None
  with assms show ?thesis by (simp add: lockVault_def Let_def timer_inv_def truthy_def)
next
  case (Some h)
  with assms have "h \<noteq> 0" "filter (\<lambda>p. fst p \<noteq> h) (pending w) = []"
    by (simp_all add: timer_inv_def filter_other_handle)
  with Some show ?thesis by (simp add: lockVault_def Let_def clearTimeout_def truthy_def)
qed

lemma lockVault_wiped: "timer_inv w \<Longrightarrow> wiped (lockVault w)"
  using lockVault_session[of w] lockVault_timer[of w] by (simp add: wiped_def)

lemma resetAutoLockTimer_timer:
  assumes "timer_inv w"
  shows "pending (resetAutoLockTimer w) = [(nextHandle w, now w + AUTO_LOCK_TIME)] \<and>
         timeoutRef (resetAutoLockTimer w) = Some (nextHandle w) \<and>
         nextHandle (resetAutoLockTimer w) = Suc (nextHandle w)"
proof (cases "timeoutRef w")
  case None
  with assms show ?thesis
    by (simp add: resetAutoLockTimer_def window_setTimeout_def timer_inv_def truthy_def)
next
  case (Some h)
  with assms have "h \<noteq> 0" "filter (\<lambda>p. fst p \<noteq> h) (pending w) = []"
    by (simp_all add: timer_inv_def filter_other_handle)
  with Some show ?thesis
    by (simp add: resetAutoLockTimer_def window_setTimeout_def clearTimeout_def truthy_def)
qed

lemma timer_inv_reset: "timer_inv w \<Longrightarrow> timer_inv (resetAutoLockTimer w)"
  using resetAutoLockTimer_timer[of w] by (simp add: timer_inv_def)

lemma timer_inv_same: "timer_inv w \<Longrightarrow> same_timers w w' \<Longrightarrow> timer_inv w'"
  by (simp add: timer_inv_def same_timers_def split: option.splits)

lemma timer_inv_lock: "timer_inv w \<Longrightarrow> timer_inv (lockVault w)"
  using lockVault_session[of w] lockVault_timer[of w] by (simp add: timer_inv_def)

lemma timer_inv_effect:
  assumes "timer_inv w"
  shows "timer_inv (autoLockEffect prev w)"
proof -
  have l: "timer_inv (w\<lparr>listening := True\<rparr>)"
    using assms by (simp add: timer_inv_def split: option.splits)
  have c: "timer_inv (clearTimeout h (w\<lparr>listening := False\<rparr>))" for h
    using assms by (auto simp: timer_inv_def clearTimeout_def list_all_iff split: option.splits)
  have f: "timer_inv (w\<lparr>listening := False\<rparr>)"
    using assms by (simp add: timer_inv_def split: option.splits)
  show ?thesis
    using assms timer_inv_reset[OF l] c f by (simp add: autoLockEffect_def Let_def)
qed

lemma timer_inv_handler: "timer_inv w \<Longrightarrow> timer_inv (handler env ev w)"
proof (cases "ev = Activity")
  case True
  assume "timer_inv w"
  with True show ?thesis by (simp add: handleActivity_def timer_inv_reset)
next
  case False
  assume "timer_inv w"
  with False handler_frame[of ev w env] show ?thesis by (blast intro: timer_inv_same)
qed

text \<open>A timer that fires either was no longer pending, or it wipes the session.\<close>

lemma fire_cases:
  assumes "timer_inv w"
  shows "(fire p w = w \<or> wiped (fire p w)) \<and> timer_inv (fire p w)"
proof (cases "p \<in> set (pending w)")
  case False
  with assms show ?thesis by (simp add: fire_def)
next
  case True
  let ?w1 = "w\<lparr>now := max (now w) (snd p), pending := filter (\<lambda>q. fst q \<noteq> fst p) (pending w)\<rparr>"
  have i1: "timer_inv ?w1"
    using assms by (auto simp: timer_inv_def list_all_iff split: option.splits)
  let ?w2 = "autoLockCallback ?w1"
  have w2: "wiped ?w2" "timer_inv ?w2"
    using lockVault_wiped[OF i1] timer_inv_lock[OF i1]
    by (simp_all add: autoLockCallback_def Let_def wiped_def timer_inv_def)
  have "wiped (autoLockEffect prev ?w2)" for prev
    using w2(1) by (simp add: autoLockEffect_def wiped_def truthy_def)
  moreover have "timer_inv (autoLockEffect prev ?w2)" for prev
    using w2(2) by (rule timer_inv_effect)
  ultimately show ?thesis using True by (simp add: fire_def commit_def)
qed

lemma wiped_fire: "wiped w \<Longrightarrow> fire p w = w"
  by (simp add: fire_def wiped_def)

lemma fold_fire_wiped: "wiped w \<Longrightarrow> fold fire ps w = w"
  by (induction ps) (simp_all add: wiped_fire)

lemma fold_fire_cases:
  "timer_inv w \<Longrightarrow> (fold fire ps w = w \<or> wiped (fold fire ps w)) \<and> timer_inv (fold fire ps w)"
proof (induction ps arbitrary: w)
  case Nil
  then show ?case by simp
next
  case (Cons p ps)
  from fire_cases[OF Cons.prems, of p] have f: "fire p w = w \<or> wiped (fire p w)"
    and i: "timer_inv (fire p w)" by simp_all
  from f show ?case
  proof
    assume "fire p w = w"
    with Cons.IH[OF Cons.prems] show ?thesis by simp
  next
    assume "wiped (fire p w)"
    with i show ?thesis by (simp add: fold_fire_wiped)
  qed
qed

lemma elapse_cases:
  assumes "timer_inv w"
  shows "(elapse d w = w\<lparr>now := now w + d\<rparr> \<or> wiped (elapse d w)) \<and> timer_inv (elapse d w)"
proof -
  let ?due = "sort_key snd (filter (\<lambda>p. snd p \<le> now w + d) (pending w))"
  from fold_fire_cases[OF assms, of ?due]
  have "fold fire ?due w = w \<or> wiped (fold fire ?due w)" and "timer_inv (fold fire ?due w)"
    by simp_all
  then show ?thesis
    by (auto simp: elapse_def Let_def wiped_def timer_inv_def split: option.splits)
qed

lemma step_handler: "\<forall>d. ev \<noteq> Elapse d \<Longrightarrow> step env ev w = commit (handler env ev) w"
  by (cases ev) (simp_all add: step_def)

lemma timer_inv_step:
  assumes "timer_inv w"
  shows "timer_inv (step env ev w)"
proof (cases "\<exists>d. ev = Elapse d")
  case True
  then obtain d where "ev = Elapse d" by blast
  with assms elapse_cases[of w d] show ?thesis by (simp add: step_def)
next
  case False
  then have "step env ev w = commit (handler env ev) w" by (simp add: step_handler)
  with assms show ?thesis by (simp add: commit_def timer_inv_effect timer_inv_handler)
qed

lemma timer_inv_initial: "timer_inv (initial srv)"
  by (simp add: timer_inv_def initial_def)

text \<open>In every state the component can reach, at most the timer named by \<open>timeoutRef\<close> is pending.\<close>

lemma reachable_timer_inv: "reachable env srv w \<Longrightarrow> timer_inv w"
  by (induction rule: reachable.induct) (simp_all add: timer_inv_initial timer_inv_step)

text \<open>An event that takes an unlocked vault to a locked one leaves it wiped.\<close>

lemma step_into_locked:
  assumes "timer_inv w" and "vaultUnlocked w" and "\<not> vaultUnlocked (step env ev w)"
  shows "wiped (step env ev w)"
proof (cases "\<exists>d. ev = Elapse d")
  case True
  then obtain d where "ev = Elapse d" by blast
  with assms elapse_cases[of w d] show ?thesis by (auto simp: step_def)
next
  case False
  then have s: "step env ev w = commit (handler env ev) w" by (simp add: step_handler)
  from handler_frame[of ev w env] assms(2) have "vaultUnlocked (handler env ev w)" by simp
  with assms(2) have "step env ev w = handler env ev w"
    by (simp add: s commit_def autoLockEffect_def)
  with assms(3) \<open>vaultUnlocked (handler env ev w)\<close> show ?thesis by simp
qed

lemma autoLockEffect_frame:
  "vaultUnlocked (autoLockEffect prev w) = vaultUnlocked w \<and>
   now (autoLockEffect prev w) = now w \<and>
   masterPassword (autoLockEffect prev w) = masterPassword w"
  by (simp add: autoLockEffect_def Let_def clearTimeout_def resetAutoLockTimer_frame)

lemma armed_inv: "armed w h t \<Longrightarrow> timer_inv w"
  by (simp add: armed_def timer_inv_def)

lemma elapse_before:
  assumes "armed w h t" and "now w + d < t"
  shows "elapse d w = w\<lparr>now := now w + d\<rparr>"
  using assms by (simp add: elapse_def armed_def)

lemma armed_elapse:
  assumes "armed w h t" and "now w + d < t"
  shows "armed (elapse d w) h t \<and> now (elapse d w) = now w + d"
  using assms elapse_before[OF assms] by (simp add: armed_def)

lemma elapse_due:
  assumes "armed w h t" and "t \<le> now w + d"
  shows "wiped (elapse d w) \<and> now (elapse d w) = now w + d"
proof -
  from assms have e: "elapse d w = (fire (h, t) w)\<lparr>now := now w + d\<rparr>"
    by (simp add: elapse_def armed_def)
  from assms(1) have p: "(h, t) \<in> set (pending w)" by (simp add: armed_def)
  let ?w1 = "w\<lparr>now := max (now w) t, pending := filter (\<lambda>q. fst q \<noteq> h) (pending w)\<rparr>"
  from p have "fire (h, t) w = commit autoLockCallback ?w1" by (simp add: fire_def)
  then have "\<not> vaultUnlocked (fire (h, t) w)"
    using lockVault_session[of ?w1]
    by (simp add: commit_def autoLockEffect_frame autoLockCallback_def Let_def)
  with assms(1) have "fire (h, t) w \<noteq> w" by (auto simp: armed_def)
  with fire_cases[OF armed_inv[OF assms(1)], of "(h, t)"] have "wiped (fire (h, t) w)" by simp
  then show ?thesis by (simp add: e wiped_def)
qed

lemma armed_activity:
  assumes "armed w h t"
  shows "armed (step env Activity w) (nextHandle w) (now w + AUTO_LOCK_TIME) \<and>
         now (step env Activity w) = now w"
proof -
  from assms have l: "listening w" and u: "vaultUnlocked w" and n: "nextHandle w \<noteq> 0"
    by (simp_all add: armed_def)
  have "step env Activity w = resetAutoLockTimer w"
    using l u resetAutoLockTimer_frame[of w]
    by (simp add: step_def commit_def handleActivity_def autoLockEffect_def)
  with resetAutoLockTimer_timer[OF armed_inv[OF assms]] resetAutoLockTimer_frame[of w] l u n
  show ?thesis by (simp add: armed_def)
qed

lemma armed_unlock:
  assumes "timer_inv w" and "\<not> vaultUnlocked w" and "\<not> isUnlocking w"
    and "first_failure env (masterPassword w) (server w) = None"
  shows "armed (step env ClickUnlock w) (nextHandle w) (now w + AUTO_LOCK_TIME) \<and>
         now (step env ClickUnlock w) = now w"
proof -
  let ?u = "handleUnlock env w"
  from handleUnlock_success[OF assms(4)] have u: "vaultUnlocked ?u" by auto
  from handleUnlock_frame[of w env] have st: "same_timers w ?u" by simp
  let ?l = "?u\<lparr>listening := True\<rparr>"
  have i: "timer_inv ?l"
    using timer_inv_same[OF assms(1) st] by (simp add: timer_inv_def split: option.splits)
  have s: "step env ClickUnlock w = resetAutoLockTimer ?l"
    using assms(2,3) u by (simp add: step_def commit_def autoLockEffect_def)
  from assms(1) have n: "nextHandle w \<noteq> 0" by (simp add: timer_inv_def)
  from resetAutoLockTimer_timer[OF i] resetAutoLockTimer_frame[of ?l] u st n
  show ?thesis by (simp add: s armed_def same_timers_def)
qed

text \<open>
  Claim C5. The inactivity lock is a debounced timer of 60 seconds. After an unlock,
  with no activity, the session is unlocked as long as less than 60000 ms have passed
  and locked once 60000 ms have passed. With one activity signal 30000 ms after the
  unlock and none after, it is unlocked as long as less than 60000 ms have passed since
  that signal (so it is still unlocked 60 s after the unlock) and locked once they have:
  90 s after the unlock.
\<close>

theorem auto_lock_debounce:
  assumes "timer_inv w" and "\<not> vaultUnlocked w" and "\<not> isUnlocking w"
    and "first_failure env (masterPassword w) (server w) = None"
  shows "AUTO_LOCK_TIME = 60000 \<and>
         (vaultUnlocked (run env [ClickUnlock, Elapse d] w) \<longleftrightarrow> d < 60000) \<and>
         now (run env [ClickUnlock, Elapse d] w) = now w + d \<and>
         (vaultUnlocked (run env [ClickUnlock, Elapse 30000, Activity, Elapse d] w) \<longleftrightarrow> d < 60000) \<and>
         now (run env [ClickUnlock, Elapse 30000, Activity, Elapse d] w) = now w + 30000 + d"
proof -
  let ?w0 = "step env ClickUnlock w"
  have t: "AUTO_LOCK_TIME = 60000" by (simp add: AUTO_LOCK_TIME_def)
  from armed_unlock[OF assms] t
  have a0: "armed ?w0 (nextHandle w) (now w + 60000)" and n0: "now ?w0 = now w" by simp_all
  have 1: "(vaultUnlocked (elapse d ?w0) \<longleftrightarrow> d < 60000) \<and> now (elapse d ?w0) = now w + d"
  proof (cases "d < 60000")
    case True
    with armed_elapse[OF a0, of d] n0 show ?thesis by (simp add: armed_def)
  next
    case False
    with elapse_due[OF a0, of d] n0 show ?thesis by (simp add: wiped_def)
  qed
  let ?w1 = "elapse 30000 ?w0"
  from armed_elapse[OF a0, of 30000] n0
  have a1: "armed ?w1 (nextHandle w) (now w + 60000)" and n1: "now ?w1 = now w + 30000" by simp_all
  let ?w2 = "step env Activity ?w1"
  from armed_activity[OF a1, of env] n1 t
  have a2: "armed ?w2 (nextHandle ?w1) (now w + 30000 + 60000)" and n2: "now ?w2 = now w + 30000"
    by simp_all
  have 2: "(vaultUnlocked (elapse d ?w2) \<longleftrightarrow> d < 60000) \<and> now (elapse d ?w2) = now w + 30000 + d"
  proof (cases "d < 60000")
    case True
    with armed_elapse[OF a2, of d] n2 show ?thesis by (simp add: armed_def)
  next
    case False
    with elapse_due[OF a2, of d] n2 show ?thesis by (simp add: wiped_def)
  qed
  from 1 2 t show ?thesis by (simp add: run_def step_def)
qed

theorem auto_lock_debounce_witness:
  "vaultUnlocked (run demo_env [ClickUnlock, Elapse 59999] (typed ''pw'' [demo_entry])) \<and>
   \<not> vaultUnlocked (run demo_env [ClickUnlock, Elapse 60000] (typed ''pw'' [demo_entry])) \<and>
   vaultUnlocked (run demo_env [ClickUnlock, Elapse 30000, Activity, Elapse 30000] (typed ''pw'' [demo_entry])) \<and>
   \<not> vaultUnlocked (run demo_env [ClickUnlock, Elapse 30000, Activity, Elapse 60000] (typed ''pw'' [demo_entry])) \<and>
   now (run demo_env [ClickUnlock, Elapse 30000, Activity, Elapse 60000] (typed ''pw'' [demo_entry])) = 90000"
proof -
  let ?w = "typed ''pw'' [demo_entry]"
  have f: "first_failure demo_env (masterPassword ?w) (server ?w) = None"
    by (simp add: typed_fields demo_first_failure demo_entry_decrypts)
  have i: "timer_inv ?w" unfolding typed_def by (intro timer_inv_step timer_inv_initial)
  have n0: "now ?w = 0"
    by (simp add: typed_def step_def commit_def autoLockEffect_def initial_def)
  have u: "\<not> vaultUnlocked ?w" "\<not> isUnlocking ?w" by (simp_all add: typed_fields)
  from auto_lock_debounce[OF i u f, of 59999] auto_lock_debounce[OF i u f, of 60000]
    auto_lock_debounce[OF i u f, of 30000] n0
  show ?thesis by simp
qed

subsection \<open>The add flow\<close>

lemma handleAddEntry_success:
  assumes "aesKey w = Some k"
    and "add_try env k (newEntry w) (w\<lparr>isAdding := True, error := []\<rparr>) = (Inr u, w2)"
  shows "handleAddEntry env w =
           (handleUnlock env (w2\<lparr>showAddForm := False, newEntry := emptyEntry\<rparr>))\<lparr>isAdding := False\<rparr>"
  using assms by (simp add: handleAddEntry_def)

lemma handleAddEntry_calls:
  "\<exists>t. calls (handleAddEntry env w) = calls w @ t \<and>
       (\<forall>p. AddEntry p \<in> set t \<longrightarrow> (payload_notes p = None) = (new_notes (newEntry w) = []))"
proof (cases "aesKey w")
  case None
  then have "calls (handleAddEntry env w) = calls w @ []" by (simp add: handleAddEntry_def)
  then show ?thesis by (intro exI[of _ "[]"]) simp
next
  case (Some k)
  let ?w1 = "w\<lparr>isAdding := True, error := []\<rparr>"
  obtain r w2 where a: "add_try env k (newEntry w) ?w1 = (r, w2)" by force
  from add_try_calls[of env k "newEntry w" ?w1] a obtain t1 where
    t1: "calls w2 = calls w @ t1"
    and n1: "\<forall>p. AddEntry p \<in> set t1 \<longrightarrow> (payload_notes p = None) = (new_notes (newEntry w) = [])"
    by auto
  show ?thesis
  proof (cases r)
    case (Inl e)
    with Some a have "calls (handleAddEntry env w) = calls w @ t1"
      by (simp add: handleAddEntry_def t1)
    with n1 show ?thesis by blast
  next
    case (Inr u)
    let ?w3 = "w2\<lparr>showAddForm := False, newEntry := emptyEntry\<rparr>"
    from Inr a have h: "handleAddEntry env w = (handleUnlock env ?w3)\<lparr>isAdding := False\<rparr>"
      using handleAddEntry_success[OF Some, of env u w2] by simp
    from handleUnlock_frame[of ?w3 env] obtain t2 where
      t2: "calls (handleUnlock env ?w3) = calls ?w3 @ t2" and u2: "list_all is_unlock_call t2"
      by blast
    from u2 have "\<And>p. AddEntry p \<notin> set t2" by (auto simp: list_all_iff)
    with n1 have "\<forall>p. AddEntry p \<in> set (t1 @ t2) \<longrightarrow>
        (payload_notes p = None) = (new_notes (newEntry w) = [])" by auto
    moreover have "calls (handleAddEntry env w) = calls w @ (t1 @ t2)"
      by (simp add: h t2 t1)
    ultimately show ?thesis by blast
  qed
qed

lemmas demo_defs = filling_demo_def unlocked_demo_def typed_def step_def commit_def
  autoLockEffect_def initial_def handleUnlock_def unlock_try_def await_def invoke_def throw_def
  return_io_def demo_env_def offline_env_def demo_deriveKey_def demo_createHMAC_def
  demo_decryptData_def demo_encryptData_def demo_stored_def decryptEntry_def decryptField_def
  demo_entry_def resetAutoLockTimer_def window_setTimeout_def clearTimeout_def truthy_def
  AUTO_LOCK_TIME_def Let_def handleAddEntry_def add_try_def encryptFields_def encryptField_def
  mutate_def emptyEntry_def new_calls_def unlock_message_def

text \<open>
  Claim C6. An absent notes field is no envelope. The add flow passes \<open>notes: null\<close> to
  \<open>addEntry\<close> exactly when the notes plaintext is the empty string: every payload that
  \<open>handleAddEntry\<close> submits has no notes envelope if and only if \<open>newEntry.notes\<close> is
  empty. The unlock flow, when verification passes and every envelope that is present
  decrypts, unlocks the vault, and each fetched entry without a notes envelope is shown
  with the empty string as its notes.
\<close>

theorem absent_notes_representation:
  "(AddEntry p \<in> set (new_calls w (handleAddEntry env w)) \<longrightarrow>
      (payload_notes p = None) = (new_notes (newEntry w) = [])) \<and>
   (getEncryptionSalt env (server w) = Inr r \<and>
      encryptionSalt r = Some salt \<and> salt \<noteq> [] \<and>
      keyDerivationMethod r = Some meth \<and> meth \<noteq> [] \<and>
      verification r = Some v \<and>
      base64ToBuffer env salt = Inr buf \<and>
      deriveKey env (masterPassword w) buf meth = Inr (ak, hk) \<and>
      createHMAC env hk (secret v) = Inr (hmac v) \<and>
      getEncryptedVault env (server w) = Inr es \<and>
      (\<forall>e \<in> set es.
         (\<exists>a. website e = Some a \<and> opens env ak a) \<and>
         (\<exists>b. username e = Some b \<and> opens env ak b) \<and>
         (\<exists>c. password e = Some c \<and> opens env ak c) \<and>
         (\<forall>n. notes' e = Some n \<longrightarrow> opens env ak n)) \<longrightarrow>
      vaultUnlocked (handleUnlock env w) \<and>
      length (credentials (handleUnlock env w)) = length es \<and>
      (\<forall>i < length es. notes' (es ! i) = None \<longrightarrow>
         entry (credentials (handleUnlock env w) ! i) = es ! i \<and>
         decryptedNotes (credentials (handleUnlock env w) ! i) = []))"
proof (intro conjI impI)
  assume m: "AddEntry p \<in> set (new_calls w (handleAddEntry env w))"
  from handleAddEntry_calls[of env w] obtain t where
    t: "calls (handleAddEntry env w) = calls w @ t"
    and n: "\<forall>p. AddEntry p \<in> set t \<longrightarrow> (payload_notes p = None) = (new_notes (newEntry w) = [])"
    by blast
  from t have "new_calls w (handleAddEntry env w) = t" by (rule new_calls_append)
  with m n show "(payload_notes p = None) = (new_notes (newEntry w) = [])" by simp
next
  assume b: "getEncryptionSalt env (server w) = Inr r \<and>
      encryptionSalt r = Some salt \<and> salt \<noteq> [] \<and>
      keyDerivationMethod r = Some meth \<and> meth \<noteq> [] \<and>
      verification r = Some v \<and>
      base64ToBuffer env salt = Inr buf \<and>
      deriveKey env (masterPassword w) buf meth = Inr (ak, hk) \<and>
      createHMAC env hk (secret v) = Inr (hmac v) \<and>
      getEncryptedVault env (server w) = Inr es \<and>
      (\<forall>e \<in> set es.
         (\<exists>a. website e = Some a \<and> opens env ak a) \<and>
         (\<exists>b. username e = Some b \<and> opens env ak b) \<and>
         (\<exists>c. password e = Some c \<and> opens env ak c) \<and>
         (\<forall>n. notes' e = Some n \<longrightarrow> opens env ak n))"
  then have "\<forall>e \<in> set es. entry_decrypts env ak e"
    by (auto simp: entry_decrypts_def split: option.splits)
  then have all: "list_all (entry_decrypts env ak) es" by (simp add: list_all_iff)
  from b have "\<exists>t. handleUnlock env w =
            w\<lparr>error := [], isUnlocking := False, aesKey := Some ak,
              credentials := map (plain_entry env ak) es, vaultUnlocked := True,
              calls := calls w @ t\<rparr>"
    by (intro handleUnlock_verified[of env w r salt meth v buf ak hk es] all) simp_all
  then obtain t where h: "handleUnlock env w =
            w\<lparr>error := [], isUnlocking := False, aesKey := Some ak,
              credentials := map (plain_entry env ak) es, vaultUnlocked := True,
              calls := calls w @ t\<rparr>" by blast
  show "vaultUnlocked (handleUnlock env w)" by (simp add: h)
  show "length (credentials (handleUnlock env w)) = length es" by (simp add: h)
  show "\<forall>i < length es. notes' (es ! i) = None \<longrightarrow>
         entry (credentials (handleUnlock env w) ! i) = es ! i \<and>
         decryptedNotes (credentials (handleUnlock env w) ! i) = []"
    by (simp add: h plain_entry_def)
qed

theorem absent_notes_representation_witness:
  "AddEntry \<lparr>payload_website = \<lparr>cipherText = ''EpwS1w'', iv = []\<rparr>,
             payload_username = \<lparr>cipherText = ''EpwS1u'', iv = ''n''\<rparr>,
             payload_password = \<lparr>cipherText = ''EpwS1p'', iv = ''nn''\<rparr>,
             payload_notes = None\<rparr>
     \<in> set (new_calls (filling_demo [] []) (handleAddEntry demo_env (filling_demo [] []))) \<and>
   new_notes (newEntry (filling_demo [] [])) = [] \<and>
   AddEntry \<lparr>payload_website = \<lparr>cipherText = ''EpwS1w'', iv = []\<rparr>,
             payload_username = \<lparr>cipherText = ''EpwS1u'', iv = ''n''\<rparr>,
             payload_password = \<lparr>cipherText = ''EpwS1p'', iv = ''nn''\<rparr>,
             payload_notes = Some \<lparr>cipherText = ''EpwS1n'', iv = ''nnn''\<rparr>\<rparr>
     \<in> set (new_calls (filling_demo ''n'' []) (handleAddEntry demo_env (filling_demo ''n'' []))) \<and>
   new_notes (newEntry (filling_demo ''n'' [])) \<noteq> [] \<and>
   notes' demo_entry = None \<and>
   vaultUnlocked (handleUnlock demo_env (typed ''pw'' [demo_entry])) \<and>
   decryptedWebsite (credentials (handleUnlock demo_env (typed ''pw'' [demo_entry])) ! 0) = ''example.com'' \<and>
   decryptedNotes (credentials (handleUnlock demo_env (typed ''pw'' [demo_entry])) ! 0) = []"
proof -
  have 1: "AddEntry \<lparr>payload_website = \<lparr>cipherText = ''EpwS1w'', iv = []\<rparr>,
             payload_username = \<lparr>cipherText = ''EpwS1u'', iv = ''n''\<rparr>,
             payload_password = \<lparr>cipherText = ''EpwS1p'', iv = ''nn''\<rparr>,
             payload_notes = None\<rparr>
     \<in> set (new_calls (filling_demo [] []) (handleAddEntry demo_env (filling_demo [] [])))"
    by (simp add: demo_defs)
  have 2: "AddEntry \<lparr>payload_website = \<lparr>cipherText = ''EpwS1w'', iv = []\<rparr>,
             payload_username = \<lparr>cipherText = ''EpwS1u'', iv = ''n''\<rparr>,
             payload_password = \<lparr>cipherText = ''EpwS1p'', iv = ''nn''\<rparr>,
             payload_notes = Some \<lparr>cipherText = ''EpwS1n'', iv = ''nnn''\<rparr>\<rparr>
     \<in> set (new_calls (filling_demo ''n'' []) (handleAddEntry demo_env (filling_demo ''n'' [])))"
    by (simp add: demo_defs)
  have 3: "decryptedWebsite (credentials (handleUnlock demo_env (typed ''pw'' [demo_entry])) ! 0) = ''example.com''"
    by (simp add: demo_defs)
  from 1 2 3
    absent_notes_representation[of
      "\<lparr>payload_website = \<lparr>cipherText = ''EpwS1w'', iv = []\<rparr>,
        payload_username = \<lparr>cipherText = ''EpwS1u'', iv = ''n''\<rparr>,
        payload_password = \<lparr>cipherText = ''EpwS1p'', iv = ''nn''\<rparr>,
        payload_notes = None\<rparr>" "filling_demo [] []" demo_env]
    absent_notes_representation[of
      "\<lparr>payload_website = \<lparr>cipherText = ''EpwS1w'', iv = []\<rparr>,
        payload_username = \<lparr>cipherText = ''EpwS1u'', iv = ''n''\<rparr>,
        payload_password = \<lparr>cipherText = ''EpwS1p'', iv = ''nn''\<rparr>,
        payload_notes = Some \<lparr>cipherText = ''EpwS1n'', iv = ''nnn''\<rparr>\<rparr>" "filling_demo ''n'' []" demo_env]
    absent_notes_representation[of _ "typed ''pw'' [demo_entry]" demo_env
      "\<lparr>encryptionSalt = Some ''S1'', keyDerivationMethod = Some ''kdf-v1'',
        verification = Some \<lparr>secret = ''c'', hmac = ''ApwS1c''\<rparr>\<rparr>"
      "''S1''" "''kdf-v1''" "\<lparr>secret = ''c'', hmac = ''ApwS1c''\<rparr>" "''S1''"
      "CryptoKey ''EpwS1''" "CryptoKey ''ApwS1''" "[demo_entry]"]
  show ?thesis
    by (simp add: demo_parameters typed_fields demo_opens demo_entry_def)
qed

text \<open>
  Claim C8, as the code has it. When the add has succeeded, \<open>handleAddEntry\<close> runs the
  whole unlock flow again on the backend as the add left it. If no sub-step of that
  refresh fails, the stored entries are fetched again and the visible list is exactly
  the plaintext view of the fetched entries, one per stored entry, nothing of the old
  list being kept. If a sub-step of the refresh fails, the list shown before the add
  stays, and the unlock error message is set.
\<close>

theorem add_then_refresh:
  assumes "aesKey w = Some k"
    and "add_try env k (newEntry w) (w\<lparr>isAdding := True, error := []\<rparr>) = (Inr u, w2)"
  shows "(first_failure env (masterPassword w) (server w2) = None \<longrightarrow>
            GetEncryptedVault \<in> set (new_calls w (handleAddEntry env w)) \<and>
            (\<exists>k' es. getEncryptedVault env (server w2) = Inr es \<and>
                     list_all (entry_decrypts env k') es \<and>
                     credentials (handleAddEntry env w) = map (plain_entry env k') es \<and>
                     length (credentials (handleAddEntry env w)) = length es)) \<and>
         (first_failure env (masterPassword w) (server w2) \<noteq> None \<longrightarrow>
            credentials (handleAddEntry env w) = credentials w \<and>
            error (handleAddEntry env w) = ''Incorrect master password or decryption failed.'')"
proof -
  let ?w1 = "w\<lparr>isAdding := True, error := []\<rparr>"
  let ?w3 = "w2\<lparr>showAddForm := False, newEntry := emptyEntry\<rparr>"
  from add_try_io[of ?w1 env k "newEntry w"] assms(2) have io: "io_only ?w1 w2" by simp
  from add_try_calls[of env k "newEntry w" ?w1] assms(2) obtain t1 where
    t1: "calls w2 = calls w @ t1" by auto
  have h: "handleAddEntry env w = (handleUnlock env ?w3)\<lparr>isAdding := False\<rparr>"
    by (rule handleAddEntry_success[OF assms])
  from io have pw: "masterPassword ?w3 = masterPassword w" and cr: "credentials ?w3 = credentials w"
    by (simp_all add: io_only_def)
  show ?thesis
  proof (cases "first_failure env (masterPassword w) (server w2)")
    case None
    then have "first_failure env (masterPassword ?w3) (server ?w3) = None" by (simp add: pw)
    from handleUnlock_success[OF this] obtain k' es t where
      u: "handleUnlock env ?w3 =
         ?w3\<lparr>error := [], isUnlocking := False, aesKey := Some k',
           credentials := map (plain_entry env k') es, vaultUnlocked := True,
           calls := calls ?w3 @ t\<rparr>"
      and es: "getEncryptedVault env (server ?w3) = Inr es" "list_all (entry_decrypts env k') es"
      and g: "GetEncryptedVault \<in> set t"
      by blast
    have "calls (handleAddEntry env w) = calls w @ (t1 @ t)" by (simp add: h u t1)
    then have "new_calls w (handleAddEntry env w) = t1 @ t" by (rule new_calls_append)
    with g have "GetEncryptedVault \<in> set (new_calls w (handleAddEntry env w))" by simp
    moreover have "credentials (handleAddEntry env w) = map (plain_entry env k') es"
      by (simp add: h u)
    ultimately show ?thesis using None es by auto
  next
    case (Some s)
    then have "first_failure env (masterPassword ?w3) (server ?w3) = Some s" by (simp add: pw)
    from handleUnlock_failure[OF this] obtain e t where
      u: "handleUnlock env ?w3 =
         ?w3\<lparr>error := unlock_message, isUnlocking := False,
           console := console ?w3 @ [ConsoleError [] e], calls := calls ?w3 @ t\<rparr>"
      by blast
    have "credentials (handleAddEntry env w) = credentials w"
      using cr by (simp add: h u)
    moreover have "error (handleAddEntry env w) = ''Incorrect master password or decryption failed.''"
      by (simp add: h u unlock_message_def)
    ultimately show ?thesis using Some by simp
  qed
qed

text \<open>
  With the toy backend, which stores the submitted entry after the others: one entry
  shown before the add, two after it. With the backend that rejects the request for the
  stored entries: the add succeeds, one entry is shown before it and the same one after.
\<close>

theorem add_then_refresh_witness:
  "aesKey (filling_demo [] [demo_entry]) = Some (CryptoKey ''EpwS1'') \<and>
   length (credentials (filling_demo [] [demo_entry])) = 1 \<and>
   length (credentials (handleAddEntry demo_env (filling_demo [] [demo_entry]))) = 2 \<and>
   GetEncryptedVault \<in> set (new_calls (filling_demo [] [demo_entry])
                               (handleAddEntry demo_env (filling_demo [] [demo_entry]))) \<and>
   credentials (handleAddEntry offline_env (filling_demo [] [demo_entry]))
     = credentials (filling_demo [] [demo_entry]) \<and>
   error (handleAddEntry offline_env (filling_demo [] [demo_entry]))
     = ''Incorrect master password or decryption failed.''"
proof -
  let ?w = "filling_demo [] [demo_entry]"
  let ?w1 = "?w\<lparr>isAdding := True, error := []\<rparr>"
  have k: "aesKey ?w = Some (CryptoKey ''EpwS1'')" by (simp add: demo_defs)
  have c: "length (credentials ?w) = 1" by (simp add: demo_defs)
  have c2: "length (credentials (handleAddEntry demo_env ?w)) = 2" by (simp add: demo_defs)
  obtain w2 where a: "add_try demo_env (CryptoKey ''EpwS1'') (newEntry ?w) ?w1 = (Inr (), w2)"
    by (simp add: demo_defs)
  obtain w2' where a': "add_try offline_env (CryptoKey ''EpwS1'') (newEntry ?w) ?w1 = (Inr (), w2')"
    by (simp add: demo_defs)
  have pw: "masterPassword ?w = ''pw''" by (simp add: demo_defs)
  have f: "first_failure demo_env ''pw'' (server w2) = None"
    using a by (auto simp: demo_defs first_failure_def entry_decrypts_def opens_def)
  have f': "first_failure offline_env ''pw'' (server w2') \<noteq> None"
    by (simp add: first_failure_def offline_env_def demo_env_def demo_deriveKey_def demo_createHMAC_def)
  from add_then_refresh[OF k a] add_then_refresh[OF k a'] f f' k c c2 pw
  show ?thesis by simp
qed

text \<open>
  Claim C8 as the specification states it does not hold: here the add has succeeded
  (the backend holds one entry more), and the list shown afterwards is the list shown
  before, with the same number of entries.
\<close>

theorem refresh_may_fail:
  "aesKey (filling_demo [] [demo_entry]) \<noteq> None \<and>
   server (filling_demo [] [demo_entry]) = [demo_entry] \<and>
   length (server (handleAddEntry offline_env (filling_demo [] [demo_entry]))) = 2 \<and>
   credentials (handleAddEntry offline_env (filling_demo [] [demo_entry]))
     = credentials (filling_demo [] [demo_entry]) \<and>
   length (credentials (handleAddEntry offline_env (filling_demo [] [demo_entry])))
     \<noteq> Suc (length (credentials (filling_demo [] [demo_entry])))"
  by (simp add: demo_defs)

subsection \<open>The master password\<close>

text \<open>
  Claim C4, as the code has it. The master password is the component state cell
  \<open>masterPassword\<close>. \<open>handleUnlock\<close> reads it there and leaves it as it is, so that after
  a successful unlock the session is unlocked with the password still in the cell;
  \<open>lockVault\<close> sets the cell to the empty string. No event other than typing into the
  password field or the passing of time changes it, and the passing of time either
  leaves it or, by the auto-lock, empties it.
\<close>

theorem master_password_lifetime:
  "masterPassword (handleUnlock env w) = masterPassword w \<and>
   (first_failure env (masterPassword w) (server w) = None \<longrightarrow> vaultUnlocked (handleUnlock env w)) \<and>
   masterPassword (lockVault w) = [] \<and>
   ((\<forall>v. ev \<noteq> ChangeMasterPassword v) \<and> (\<forall>d. ev \<noteq> Elapse d) \<longrightarrow>
      masterPassword (step env ev w) = masterPassword w) \<and>
   (timer_inv w \<longrightarrow>
      masterPassword (step env (Elapse d) w) = masterPassword w \<or>
      masterPassword (step env (Elapse d) w) = [])"
proof (intro conjI impI)
  show "masterPassword (handleUnlock env w) = masterPassword w"
    using handleUnlock_frame[of w env] by simp
  show "masterPassword (lockVault w) = []" using lockVault_session[of w] by simp
next
  assume "first_failure env (masterPassword w) (server w) = None"
  from handleUnlock_success[OF this] show "vaultUnlocked (handleUnlock env w)" by auto
next
  assume a: "(\<forall>v. ev \<noteq> ChangeMasterPassword v) \<and> (\<forall>d. ev \<noteq> Elapse d)"
  then have "step env ev w = commit (handler env ev) w" by (simp add: step_handler)
  with a handler_frame[of ev w env] show "masterPassword (step env ev w) = masterPassword w"
    by (simp add: commit_def autoLockEffect_frame)
next
  assume "timer_inv w"
  from elapse_cases[OF this, of d]
  show "masterPassword (step env (Elapse d) w) = masterPassword w \<or>
        masterPassword (step env (Elapse d) w) = []"
    by (auto simp: step_def wiped_def)
qed

theorem master_password_lifetime_witness:
  "first_failure demo_env (masterPassword (typed ''pw'' [demo_entry])) (server (typed ''pw'' [demo_entry])) = None \<and>
   vaultUnlocked (handleUnlock demo_env (typed ''pw'' [demo_entry])) \<and>
   masterPassword (handleUnlock demo_env (typed ''pw'' [demo_entry])) = ''pw'' \<and>
   masterPassword (step demo_env ClickUnlock (typed ''pw'' [demo_entry])) = ''pw'' \<and>
   timer_inv (unlocked_demo [demo_entry]) \<and>
   masterPassword (step demo_env (Elapse 60000) (unlocked_demo [demo_entry])) = []"
proof -
  let ?w = "typed ''pw'' [demo_entry]"
  have f: "first_failure demo_env (masterPassword ?w) (server ?w) = None"
    by (simp add: typed_fields demo_first_failure demo_entry_decrypts)
  have i: "timer_inv (unlocked_demo [demo_entry])"
    unfolding unlocked_demo_def typed_def by (intro timer_inv_step timer_inv_initial)
  have e: "masterPassword (step demo_env (Elapse 60000) (unlocked_demo [demo_entry])) \<noteq> ''pw''"
    by (simp add: demo_defs elapse_def fire_def autoLockCallback_def lockVault_def)
  from master_password_lifetime[of demo_env ?w ClickUnlock]
    master_password_lifetime[of demo_env "unlocked_demo [demo_entry]" _ 60000] f i e
  show ?thesis by (auto simp: typed_fields unlocked_demo_def)
qed

text \<open>
  Claim C4 as the specification states it does not hold: after a successful unlock the
  session is unlocked and the component state holds the master password.
\<close>

theorem master_password_retained:
  "vaultUnlocked (unlocked_demo [demo_entry]) \<and>
   masterPassword (unlocked_demo [demo_entry]) = ''pw''"
  by (simp add: demo_defs)

subsection \<open>Handlers in flight\<close>

text \<open>\<open>handleUnlock\<close> run in one go is its beginning followed at once by its end.\<close>

lemma handleUnlock_split:
  "handleUnlock env w = handleUnlock_end env (masterPassword w) (handleUnlock_begin w)"
proof -
  let ?w1 = "w\<lparr>error := [], isUnlocking := True\<rparr>"
  from unlock_try_shape[of env ?w1] obtain r t where
    u: "unlock_try env ?w1 = (r, ?w1\<lparr>calls := calls ?w1 @ t\<rparr>)" by blast
  have m: "?w1\<lparr>masterPassword := masterPassword w\<rparr> = ?w1" by simp
  show ?thesis
  proof (cases r)
    case (Inl e)
    with u m show ?thesis
      by (simp add: handleUnlock_def handleUnlock_end_def handleUnlock_begin_def)
  next
    case (Inr kd)
    then obtain k ds where "r = Inr (k, ds)" by (cases kd) simp
    with u m show ?thesis
      by (simp add: handleUnlock_def handleUnlock_end_def handleUnlock_begin_def)
  qed
qed

lemma handleUnlock_end_cases:
  "(\<exists>k ds t. handleUnlock_end env pw w =
       w\<lparr>calls := calls w @ t, aesKey := Some k, credentials := ds, vaultUnlocked := True,
         isUnlocking := False\<rparr>) \<or>
   (\<exists>e t. handleUnlock_end env pw w =
       w\<lparr>calls := calls w @ t, console := console w @ [ConsoleError [] e],
         error := unlock_message, isUnlocking := False\<rparr>)"
proof -
  let ?w0 = "w\<lparr>masterPassword := pw\<rparr>"
  from unlock_try_shape[of env ?w0] obtain r t where
    u: "unlock_try env ?w0 = (r, ?w0\<lparr>calls := calls ?w0 @ t\<rparr>)" by blast
  show ?thesis
  proof (cases r)
    case (Inl e)
    with u have "handleUnlock_end env pw w =
       w\<lparr>calls := calls w @ t, console := console w @ [ConsoleError [] e],
         error := unlock_message, isUnlocking := False\<rparr>"
      by (simp add: handleUnlock_end_def)
    then show ?thesis by blast
  next
    case (Inr kd)
    then obtain k ds where "r = Inr (k, ds)" by (cases kd) simp
    with u have "handleUnlock_end env pw w =
       w\<lparr>calls := calls w @ t, aesKey := Some k, credentials := ds, vaultUnlocked := True,
         isUnlocking := False\<rparr>"
      by (simp add: handleUnlock_end_def)
    then show ?thesis by blast
  qed
qed

text \<open>What the end of a handler leaves alone, whenever it runs.\<close>

lemma handleUnlock_end_frame:
  "same_timers w (handleUnlock_end env pw w) \<and>
   (vaultUnlocked w \<longrightarrow> vaultUnlocked (handleUnlock_end env pw w)) \<and>
   (\<not> vaultUnlocked (handleUnlock_end env pw w) \<longrightarrow>
      aesKey (handleUnlock_end env pw w) = aesKey w \<and>
      credentials (handleUnlock_end env pw w) = credentials w) \<and>
   editingEntry (handleUnlock_end env pw w) = editingEntry w \<and>
   showAddForm (handleUnlock_end env pw w) = showAddForm w"
  using handleUnlock_end_cases[of env pw w] by (auto simp: same_timers_def)

lemma handleAddEntry_end_frame:
  "same_timers w (fst (handleAddEntry_end env k ne w)) \<and>
   vaultUnlocked (fst (handleAddEntry_end env k ne w)) = vaultUnlocked w \<and>
   aesKey (fst (handleAddEntry_end env k ne w)) = aesKey w \<and>
   credentials (fst (handleAddEntry_end env k ne w)) = credentials w \<and>
   editingEntry (fst (handleAddEntry_end env k ne w)) = editingEntry w \<and>
   (showAddForm (fst (handleAddEntry_end env k ne w)) \<longrightarrow> showAddForm w)"
proof -
  obtain r w2 where a: "add_try env k ne w = (r, w2)" by force
  from add_try_io[of w env k ne] a have io: "io_only w w2" by simp
  show ?thesis
  proof (cases r)
    case (Inl e)
    with a io show ?thesis
      by (simp add: handleAddEntry_end_def io_only_def same_timers_def)
  next
    case (Inr u)
    with a io show ?thesis
      by (simp add: handleAddEntry_end_def handleUnlock_begin_def io_only_def same_timers_def)
  qed
qed

lemma handleUpdateEntry_end_frame:
  "same_timers w (fst (handleUpdateEntry_end env k ee w)) \<and>
   vaultUnlocked (fst (handleUpdateEntry_end env k ee w)) = vaultUnlocked w \<and>
   aesKey (fst (handleUpdateEntry_end env k ee w)) = aesKey w \<and>
   credentials (fst (handleUpdateEntry_end env k ee w)) = credentials w \<and>
   (editingEntry w = None \<longrightarrow> editingEntry (fst (handleUpdateEntry_end env k ee w)) = None) \<and>
   showAddForm (fst (handleUpdateEntry_end env k ee w)) = showAddForm w"
proof -
  obtain r w2 where a: "update_try env k ee w = (r, w2)" by force
  from update_try_io[of w env k ee] a have io: "io_only w w2" by simp
  show ?thesis
  proof (cases r)
    case (Inl e)
    with a io show ?thesis
      by (simp add: handleUpdateEntry_end_def io_only_def same_timers_def)
  next
    case (Inr u)
    with a io show ?thesis
      by (simp add: handleUpdateEntry_end_def handleUnlock_begin_def io_only_def same_timers_def)
  qed
qed

lemma handleDelete_end_frame:
  "same_timers w (fst (handleDelete_end env i w)) \<and>
   vaultUnlocked (fst (handleDelete_end env i w)) = vaultUnlocked w \<and>
   aesKey (fst (handleDelete_end env i w)) = aesKey w \<and>
   credentials (fst (handleDelete_end env i w)) = credentials w \<and>
   editingEntry (fst (handleDelete_end env i w)) = editingEntry w \<and>
   showAddForm (fst (handleDelete_end env i w)) = showAddForm w"
proof -
  obtain r w2 where a: "mutate (DeleteEntry i) (deleteEntry env i) w = (r, w2)" by force
  from mutate_io[of w "DeleteEntry i" "deleteEntry env i"] a have io: "io_only w w2" by simp
  show ?thesis
  proof (cases r)
    case (Inl e)
    with a io show ?thesis
      by (simp add: handleDelete_end_def io_only_def same_timers_def)
  next
    case (Inr u)
    with a io show ?thesis
      by (simp add: handleDelete_end_def handleUnlock_begin_def io_only_def same_timers_def)
  qed
qed

text \<open>
  A task that goes on leaves the timers alone, does not lock the vault, and in a vault
  that stays locked puts back no key, no entry and no form.
\<close>

lemma resume_frame:
  assumes "resume env t w = (w', ts')"
  shows "same_timers w w' \<and> (vaultUnlocked w \<longrightarrow> vaultUnlocked w') \<and>
         (\<not> vaultUnlocked w' \<longrightarrow>
            aesKey w' = aesKey w \<and> credentials w' = credentials w \<and>
            (editingEntry w = None \<longrightarrow> editingEntry w' = None) \<and>
            (showAddForm w' \<longrightarrow> showAddForm w))"
proof (cases t)
  case (UnlockEnd pw)
  with assms have "w' = handleUnlock_end env pw w" by simp
  with handleUnlock_end_frame[of w env pw] show ?thesis by simp
next
  case (AddEnd k ne pw)
  with assms have "w' = fst (handleAddEntry_end env k ne w)" by (auto split: prod.splits)
  with handleAddEntry_end_frame[of w env k ne] show ?thesis by simp
next
  case (UpdateEnd k ee pw)
  with assms have "w' = fst (handleUpdateEntry_end env k ee w)" by (auto split: prod.splits)
  with handleUpdateEntry_end_frame[of w env k ee] show ?thesis by simp
next
  case (DeleteEnd i pw)
  with assms have "w' = fst (handleDelete_end env i w)" by (auto split: prod.splits)
  with handleDelete_end_frame[of w env i] show ?thesis by simp
qed

lemma launch_frame:
  assumes "launch ev w = Some (w', t)"
  shows "same_timers w w' \<and> vaultUnlocked w' = vaultUnlocked w \<and> aesKey w' = aesKey w \<and>
         credentials w' = credentials w \<and> editingEntry w' = editingEntry w \<and>
         showAddForm w' = showAddForm w"
  using assms
  by (cases ev)
    (auto simp: same_timers_def handleUnlock_begin_def split: if_splits option.splits)

subsection \<open>The locked session\<close>

lemma locked_inv_same:
  assumes "locked_inv w" and "same_timers w w'"
    and "\<not> vaultUnlocked w' \<longrightarrow> \<not> vaultUnlocked w \<and> aesKey w' = aesKey w \<and>
           credentials w' = credentials w \<and> (editingEntry w = None \<longrightarrow> editingEntry w' = None) \<and>
           (showAddForm w' \<longrightarrow> showAddForm w)"
  shows "locked_inv w'"
  using assms by (auto simp: locked_inv_def same_timers_def)

lemma locked_inv_effect:
  assumes "locked_inv w'" and "vaultUnlocked w \<longrightarrow> vaultUnlocked w'"
  shows "locked_inv (autoLockEffect (vaultUnlocked w) w')"
proof (cases "vaultUnlocked w'")
  case True
  with autoLockEffect_frame[of "vaultUnlocked w" w'] show ?thesis by (simp add: locked_inv_def)
next
  case False
  with assms(2) have "\<not> vaultUnlocked w" by blast
  with False assms(1) show ?thesis by (simp add: autoLockEffect_def)
qed

lemma fire_locked_inv:
  assumes "timer_inv w" and "locked_inv w"
  shows "locked_inv (fire p w)"
proof (cases "p \<in> set (pending w)")
  case False
  with assms(2) show ?thesis by (simp add: fire_def)
next
  case True
  then have "pending w \<noteq> []" by auto
  with assms(2) have u: "vaultUnlocked w" by (auto simp: locked_inv_def)
  let ?w1 = "w\<lparr>now := max (now w) (snd p), pending := filter (\<lambda>q. fst q \<noteq> fst p) (pending w)\<rparr>"
  have i1: "timer_inv ?w1"
    using assms(1) by (auto simp: timer_inv_def list_all_iff split: option.splits)
  let ?w2 = "autoLockCallback ?w1"
  have w2: "wiped ?w2"
    using lockVault_wiped[OF i1] by (simp add: autoLockCallback_def Let_def wiped_def)
  have "fire p w = autoLockEffect True ?w2"
    using True u by (simp add: fire_def commit_def)
  also have "\<dots> = ?w2\<lparr>listening := False\<rparr>"
    using w2 by (simp add: autoLockEffect_def Let_def wiped_def truthy_def)
  finally show ?thesis using w2 by (simp add: locked_inv_def wiped_def)
qed

lemma fold_fire_locked_inv:
  "timer_inv w \<Longrightarrow> locked_inv w \<Longrightarrow> locked_inv (fold fire ps w)"
proof (induction ps arbitrary: w)
  case Nil
  then show ?case by simp
next
  case (Cons p ps)
  from fire_cases[OF Cons.prems(1), of p] have "timer_inv (fire p w)" by simp
  moreover from fire_locked_inv[OF Cons.prems, of p] have "locked_inv (fire p w)" .
  ultimately show ?case using Cons.IH[of "fire p w"] by simp
qed

lemma locked_inv_step:
  assumes "timer_inv w" and "locked_inv w"
  shows "locked_inv (step env ev w)"
proof (cases "\<exists>d. ev = Elapse d")
  case True
  then obtain d where "ev = Elapse d" by blast
  moreover have "locked_inv (fold fire ps w)" for ps
    using assms by (rule fold_fire_locked_inv)
  ultimately show ?thesis by (simp add: step_def elapse_def Let_def locked_inv_def)
next
  case False
  then have s: "step env ev w = autoLockEffect (vaultUnlocked w) (handler env ev w)"
    by (simp add: step_handler commit_def)
  show ?thesis
  proof (cases "vaultUnlocked w")
    case True
    with handler_frame[of ev w env] have "vaultUnlocked (handler env ev w)" by simp
    with autoLockEffect_frame[of "vaultUnlocked w" "handler env ev w"] show ?thesis
      by (simp add: s locked_inv_def)
  next
    case locked: False
    with assms(2) have l: "aesKey w = None" "credentials w = []" "editingEntry w = None"
      "\<not> showAddForm w" "timeoutRef w = None" "pending w = []" "\<not> listening w"
      by (simp_all add: locked_inv_def)
    have "locked_inv (handler env ev w)"
    proof (cases "ev = ClickUnlock \<and> \<not> isUnlocking w")
      case True
      show ?thesis
      proof (cases "first_failure env (masterPassword w) (server w)")
        case None
        from handleUnlock_success[OF None] have "vaultUnlocked (handleUnlock env w)" by auto
        with True locked show ?thesis by (simp add: locked_inv_def)
      next
        case (Some s)
        from handleUnlock_failure[OF Some] obtain e t where
          "handleUnlock env w =
             w\<lparr>error := unlock_message, isUnlocking := False,
               console := console w @ [ConsoleError [] e], calls := calls w @ t\<rparr>"
          by blast
        with True locked assms(2) show ?thesis by (simp add: locked_inv_def)
      qed
    next
      case False
      with locked l assms(2) show ?thesis
        by (cases ev) (auto simp: locked_inv_def handleActivity_def)
    qed
    moreover have "vaultUnlocked w \<longrightarrow> vaultUnlocked (handler env ev w)"
      using locked by simp
    ultimately show ?thesis unfolding s by (rule locked_inv_effect)
  qed
qed

lemma locked_inv_initial: "locked_inv (initial srv)"
  by (simp add: locked_inv_def initial_def)

text \<open>
  With handlers interleaving as with handlers run to the end: at most the timer named
  by \<open>timeoutRef\<close> is pending, and a locked session holds no key, no entry, no form
  and no timer.
\<close>

lemma async_reachable_inv:
  "async_reachable env srv w ts \<Longrightarrow> timer_inv w \<and> locked_inv w"
proof (induction rule: async_reachable.induct)
  case async_initial
  show ?case by (simp add: timer_inv_initial locked_inv_initial)
next
  case (async_step w ts ev)
  then show ?case by (simp add: timer_inv_step locked_inv_step)
next
  case (async_launch w ts ev w' t)
  from launch_frame[OF async_launch.hyps(2)] async_launch.IH show ?case
    by (auto intro: timer_inv_same locked_inv_same)
next
  case (async_resume w ts t w' ts')
  from resume_frame[OF async_resume.hyps(3)]
  have f: "same_timers w w'" "vaultUnlocked w \<longrightarrow> vaultUnlocked w'"
    "\<not> vaultUnlocked w' \<longrightarrow>
       aesKey w' = aesKey w \<and> credentials w' = credentials w \<and>
       (editingEntry w = None \<longrightarrow> editingEntry w' = None) \<and> (showAddForm w' \<longrightarrow> showAddForm w)"
    by simp_all
  from async_resume.IH f(1) have "timer_inv w'" by (blast intro: timer_inv_same)
  then have 1: "timer_inv (autoLockEffect (vaultUnlocked w) w')" by (rule timer_inv_effect)
  from f have "locked_inv w'"
    using async_resume.IH by (intro locked_inv_same[of w w']) auto
  then have "locked_inv (autoLockEffect (vaultUnlocked w) w')"
    using f(2) by (rule locked_inv_effect)
  with 1 show ?case by simp
qed

lemma async_reachable_run:
  "async_reachable env srv w ts \<Longrightarrow> async_reachable env srv (fold (step env) evs w) ts"
  by (induction evs arbitrary: w) (simp_all add: async_step)

subsection \<open>Locking\<close>

lemmas flight_defs = submitted_demo_def submitted_task_def locked_in_flight_def
  added_after_lock_def refreshed_after_lock_def handleUnlock_begin_def handleUnlock_end_def
  handleAddEntry_end_def elapse_def fire_def autoLockCallback_def lockVault_def

lemma submitted_launch:
  "launch SubmitAdd (filling_demo ''n'' [demo_entry]) = Some (submitted_demo, submitted_task)"
  by (simp add: demo_defs flight_defs)

lemma submitted_task_eq:
  "submitted_task =
     AddEnd (CryptoKey ''EpwS1'')
       \<lparr>new_website = ''w'', new_username = ''u'', new_password = ''p'', new_notes = ''n''\<rparr> ''pw''"
  by (simp add: demo_defs flight_defs)

lemma filling_demo_reachable: "async_reachable demo_env srv (filling_demo n srv) []"
  unfolding filling_demo_def unlocked_demo_def typed_def
  by (intro async_reachable_run async_step async_initial)

lemma locked_in_flight_reachable:
  "async_reachable demo_env [demo_entry] locked_in_flight [submitted_task]"
proof -
  from async_launch[OF filling_demo_reachable submitted_launch]
  have "async_reachable demo_env [demo_entry] submitted_demo [submitted_task]" by simp
  then show ?thesis unfolding locked_in_flight_def by (rule async_step)
qed

text \<open>
  Claim C2, as the code has it. \<open>lockVault\<close>, run in any state whatever, leaves the
  session locked with no key (\<open>aesKey\<close> is \<open>null\<close>), no decrypted entry (\<open>credentials\<close>
  is empty), no entry being edited (\<open>editingEntry\<close> is \<open>null\<close>) and the add form closed
  (\<open>showAddForm\<close> is \<open>false\<close>), and it cancels the timer whose handle \<open>timeoutRef\<close>
  holds; the contents of the add form that were typed and not submitted, \<open>newEntry\<close>,
  are kept as they are. In every state the component can reach, also with handlers in
  flight, no timer is pending after \<open>lockVault\<close>, and for as long as the session is
  locked there is no key, no decrypted entry, no entry being edited, no open add form
  and no pending timer.
\<close>

theorem lock_wipes_session:
  "\<not> vaultUnlocked (lockVault w) \<and> aesKey (lockVault w) = None \<and>
   credentials (lockVault w) = [] \<and> editingEntry (lockVault w) = None \<and>
   \<not> showAddForm (lockVault w) \<and> newEntry (lockVault w) = newEntry w \<and>
   (truthy (timeoutRef w) \<longrightarrow>
      timeoutRef (lockVault w) = None \<and>
      the (timeoutRef w) \<notin> fst ` set (pending (lockVault w))) \<and>
   (async_reachable env srv w ts \<longrightarrow>
      timeoutRef (lockVault w) = None \<and> pending (lockVault w) = [] \<and>
      (\<not> vaultUnlocked w \<longrightarrow>
         aesKey w = None \<and> credentials w = [] \<and> editingEntry w = None \<and> \<not> showAddForm w \<and>
         timeoutRef w = None \<and> pending w = []))"
proof (intro conjI impI)
  show "\<not> vaultUnlocked (lockVault w)" "aesKey (lockVault w) = None"
    "credentials (lockVault w) = []" "editingEntry (lockVault w) = None"
    "\<not> showAddForm (lockVault w)"
    using lockVault_session[of w] by simp_all
  show "newEntry (lockVault w) = newEntry w"
    by (simp add: lockVault_def Let_def clearTimeout_def)
next
  assume t: "truthy (timeoutRef w)"
  then show "timeoutRef (lockVault w) = None"
    by (simp add: lockVault_def Let_def clearTimeout_def)
  from t show "the (timeoutRef w) \<notin> fst ` set (pending (lockVault w))"
    by (auto simp: lockVault_def Let_def clearTimeout_def)
next
  assume r: "async_reachable env srv w ts"
  from async_reachable_inv[OF r] have i: "timer_inv w" and l: "locked_inv w" by simp_all
  from lockVault_timer[OF i]
  show "timeoutRef (lockVault w) = None" "pending (lockVault w) = []" by simp_all
  {
    assume "\<not> vaultUnlocked w"
    with l show "aesKey w = None" "credentials w = []" "editingEntry w = None"
      "\<not> showAddForm w" "timeoutRef w = None" "pending w = []"
      by (simp_all add: locked_inv_def)
  }
qed

text \<open>
  The lock of an unlocked session with a timer running, and the session found locked
  while an add is in flight.
\<close>

theorem lock_wipes_session_witness:
  "async_reachable demo_env [demo_entry] (unlocked_demo [demo_entry]) [] \<and>
   truthy (timeoutRef (unlocked_demo [demo_entry])) \<and>
   pending (unlocked_demo [demo_entry]) \<noteq> [] \<and>
   credentials (unlocked_demo [demo_entry]) \<noteq> [] \<and>
   aesKey (lockVault (unlocked_demo [demo_entry])) = None \<and>
   credentials (lockVault (unlocked_demo [demo_entry])) = [] \<and>
   timeoutRef (lockVault (unlocked_demo [demo_entry])) = None \<and>
   pending (lockVault (unlocked_demo [demo_entry])) = [] \<and>
   async_reachable demo_env [demo_entry] locked_in_flight [submitted_task] \<and>
   \<not> vaultUnlocked locked_in_flight \<and>
   aesKey locked_in_flight = None \<and> credentials locked_in_flight = [] \<and>
   pending locked_in_flight = []"
proof -
  have r: "async_reachable demo_env [demo_entry] (unlocked_demo [demo_entry]) []"
    unfolding unlocked_demo_def typed_def by (intro async_step async_initial)
  have t: "truthy (timeoutRef (unlocked_demo [demo_entry]))"
    "pending (unlocked_demo [demo_entry]) \<noteq> []" "credentials (unlocked_demo [demo_entry]) \<noteq> []"
    by (simp_all add: demo_defs)
  have l: "\<not> vaultUnlocked locked_in_flight"
    by (simp add: demo_defs flight_defs)
  from lock_wipes_session[of "unlocked_demo [demo_entry]" demo_env "[demo_entry]" "[]"]
    lock_wipes_session[of locked_in_flight demo_env "[demo_entry]" "[submitted_task]"]
    r t l locked_in_flight_reachable
  show ?thesis by simp
qed

text \<open>
  Claim C2 as the specification states it does not hold: the add form is filled in, the
  auto-lock fires, and the locked session still holds what was typed into the form.
\<close>

theorem add_form_survives_lock:
  "\<not> vaultUnlocked (lockVault (filling_demo ''n'' [demo_entry])) \<and>
   newEntry (lockVault (filling_demo ''n'' [demo_entry])) =
     \<lparr>new_website = ''w'', new_username = ''u'', new_password = ''p'', new_notes = ''n''\<rparr> \<and>
   \<not> vaultUnlocked (step demo_env (Elapse 60000) (filling_demo ''n'' [demo_entry])) \<and>
   newEntry (step demo_env (Elapse 60000) (filling_demo ''n'' [demo_entry])) =
     \<lparr>new_website = ''w'', new_username = ''u'', new_password = ''p'', new_notes = ''n''\<rparr>"
  by (simp add: demo_defs flight_defs)

text \<open>
  A handler in flight when the lock fires goes on after it. Here the add submitted
  before the lock stores its entry, starts the refresh with the password its closure
  holds, and the refresh unlocks the session again: the password cell is empty, as the
  lock left it, and the vault is unlocked with both entries decrypted.
\<close>

lemma refresh_after_lock:
  "async_reachable demo_env [demo_entry] refreshed_after_lock [] \<and>
   \<not> vaultUnlocked locked_in_flight \<and>
   \<not> vaultUnlocked added_after_lock \<and>
   vaultUnlocked refreshed_after_lock \<and>
   masterPassword refreshed_after_lock = [] \<and>
   aesKey refreshed_after_lock = Some (CryptoKey ''EpwS1'') \<and>
   length (credentials refreshed_after_lock) = 2"
proof -
  obtain ts where 1: "resume demo_env submitted_task locked_in_flight
      = (fst (resume demo_env submitted_task locked_in_flight), ts)"
    and ts: "ts = [UnlockEnd ''pw'']"
    by (simp add: submitted_task_eq demo_defs flight_defs)
  from async_resume[OF locked_in_flight_reachable _ 1]
  have a: "async_reachable demo_env [demo_entry] added_after_lock [UnlockEnd ''pw'']"
    by (simp add: added_after_lock_def ts)
  have 2: "resume demo_env (UnlockEnd ''pw'') added_after_lock
      = (fst (resume demo_env (UnlockEnd ''pw'') added_after_lock), [])"
    by simp
  from async_resume[OF a _ 2]
  have "async_reachable demo_env [demo_entry] refreshed_after_lock []"
    by (simp add: refreshed_after_lock_def)
  moreover have "\<not> vaultUnlocked locked_in_flight" "\<not> vaultUnlocked added_after_lock"
    by (simp_all add: submitted_task_eq demo_defs flight_defs)
  moreover have "vaultUnlocked refreshed_after_lock" "masterPassword refreshed_after_lock = []"
    "aesKey refreshed_after_lock = Some (CryptoKey ''EpwS1'')"
    "length (credentials refreshed_after_lock) = 2"
    by (simp_all add: submitted_task_eq demo_defs flight_defs)
  ultimately show ?thesis by simp
qed

end
